theory Spec2Isabelle
  imports Complex_Main
begin

section \<open>The value model of the query builder\<close>

text \<open>
  The operator enumerations belong to the goqu library (package \<open>exp\<close>); their members
  are the ones that the code names. Each one is an integer type in Go, so a value outside
  the named members can be built programmatically; the last constructor of each datatype
  stands for such a value.
\<close>

datatype BooleanOperation =
    EqOp | NeqOp | IsOp | IsNotOp | GtOp | GteOp | LtOp | LteOp | InOp | NotInOp
  | LikeOp | NotLikeOp | ILikeOp | NotILikeOp
  | RegexpLikeOp | RegexpNotLikeOp | RegexpILikeOp | RegexpNotILikeOp
  | OtherBooleanOperation nat

datatype RangeOperation = BetweenOp | NotBetweenOp | OtherRangeOperation nat

datatype ExpressionListType = AndType | OrType | OtherListType nat

datatype JoinType =
    InnerJoinType | LeftJoinType | RightJoinType | FullOuterJoinType | CrossJoinType
  | OtherJoinType nat

datatype SortDirection = AscDir | DescSortDir | OtherSortDirection nat

text \<open>\<open>Sort\<close> of expression\_sort.go.\<close>

datatype Sort = Sort (sort_Name: string) (sort_TableAlias: string) (sort_Order: SortDirection)

text \<open>
  The static type of a nil pointer. It matters in one place only: \<open>*BoolOp\<close>, \<open>*RangeOp\<close>
  and \<open>*WhereGroup\<close> implement the \<open>Condition\<close> interface of condition.go.
\<close>

datatype ptr_type = PtrBoolOp | PtrRangeOp | PtrWhereGroup | PtrOther

text \<open>
  Go values of type \<open>any\<close> as far as the code tells them apart, together with the structs of
  the package that contain such values.

  \<^item> \<open>VNil\<close> is the nil interface; \<open>VBool\<close>, \<open>VNum\<close>, \<open>VStr\<close>, \<open>VMap\<close> are the scalars and maps
    that \<open>encoding/json\<close> produces (\<open>VNum\<close> is a \<open>float64\<close>, given by its value);
    \<open>VOpaque\<close> is any other Go value that no type test of the package recognises, a number
    of another type among them.
  \<^item> \<open>VNilPtr t\<close> is a nil pointer of static type \<open>t\<close>; \<open>VPtr v\<close> is a non-nil pointer to a
    variable whose type is the concrete type of \<open>v\<close>; \<open>VPtrToAny v\<close> is a non-nil pointer to a
    variable of interface type that holds \<open>v\<close> (possibly the nil interface).
  \<^item> \<open>VBoolOp\<close>, \<open>VRangeOp\<close>, \<open>VWhereGroup\<close>, \<open>VLiteral\<close>, \<open>VCase\<close>, \<open>VCoalesce\<close> are the
    structs of those names, field by field in declaration order; the \<open>[]WhenThen\<close> of a
    \<open>Case\<close> is a list of (When, Then) pairs.
  \<^item> \<open>VExpr n\<close> is a value implementing goqu's \<open>exp.Expression\<close> that the caller supplies;
    the package hands it on without looking inside, so only its identity \<open>n\<close> is kept.
    It is not a pointer: a pointer that implements \<open>exp.Expression\<close> itself (a goqu dataset)
    is not among these values.
\<close>

datatype val =
    VNil
  | VBool bool
  | VNum rat
  | VStr string
  | VMap "(string \<times> val) list"
  | VOpaque nat
  | VSlice "val list"
  | VNilPtr ptr_type
  | VPtr val
  | VPtrToAny val
  | VSQLBuilder SQLBuilder
  | VField Field
  | VBoolOp BooleanOperation string string val
  | VWhereGroup ExpressionListType "val list"
  | VRangeOp RangeOperation string string val val
  | VLiteral string "val list"
  | VCase "(val \<times> val) list" val
  | VCoalesce "Field list" val
  | VExpr nat
and Field = Field (Name: string) (TableAlias: string) (FieldAlias: string) (Exp: val)
and Table = Table (tbl_Name: string) (tbl_Alias: string) (tbl_Relations: "Relation list")
and Relation = Relation (rel_JoinType: JoinType) (rel_On: "val list") (rel_Table: Table)
and SQLBuilder = SQLBuilder (Dialect: string) (Fields: "Field list") (qb_Table: Table)
    (Wheres: "val list") (Sorts: "Sort list") (GroupBy: "Field list") (limit: nat) (offset: nat)

section \<open>The goqu objects the package builds\<close>

text \<open>
  goqu is an external library. Its expressions and datasets are kept as the tree of API calls
  that built them, and nothing is assumed about what goqu renders from them.

  An argument that goqu takes as \<open>interface{}\<close> is an \<open>anyarg\<close>: nil, an expression, or a plain
  string. An argument of type \<open>exp.Expression\<close> that may be nil is a \<open>gexp option\<close>.
  \<open>goqu_C_Table n t\<close> is \<open>goqu.C(n).Table(t)\<close>; \<open>BooleanExpression op l r\<close> is the call of the
  method of \<open>l\<close> that belongs to \<open>op\<close> (\<open>l.Eq(r)\<close>, \<open>l.Neq(r)\<close>, ...); \<open>goqu_Case ws e\<close> is
  \<open>goqu.Case()\<close> followed by one \<open>When\<close> call for each pair of \<open>ws\<close> and, when \<open>e\<close> is not
  \<open>None\<close>, an \<open>Else\<close> call. A dataset is its constructor (\<open>goqu.From\<close>, \<open>goqu.Insert\<close>,
  \<open>goqu.Update\<close>, \<open>goqu.Delete\<close>), the table it was created from, and the builder methods
  called on it, in call order.
\<close>

datatype dataset_kind = FromK | InsertK | UpdateK | DeleteK

datatype 'e anyarg = NilArg | ExprArg 'e | StringArg string

datatype gexp =
    goqu_L string "gexp anyarg list"
  | goqu_V val
  | UserExpression nat
  | goqu_C_Table string string
  | goqu_T string
  | As gexp string
  | BooleanExpression BooleanOperation gexp "gexp anyarg"
  | goqu_Range "gexp anyarg" "gexp anyarg"
  | Between gexp gexp
  | NotBetween gexp gexp
  | goqu_And "gexp list"
  | goqu_Or "gexp list"
  | goqu_Case "(gexp anyarg \<times> gexp anyarg) list" "gexp anyarg option"
  | goqu_COALESCE "gexp anyarg list"
  | goqu_COUNT gexp
  | goqu_Star
  | Asc gexp
  | Desc gexp
  | SelectDataset dataset
and dataset = Dataset dataset_kind gexp "clause list"
and clause =
    ds_WithDialect string
  | ds_InnerJoin gexp "gexp option list"
  | ds_LeftJoin gexp "gexp option list"
  | ds_RightJoin gexp "gexp option list"
  | ds_Join gexp "gexp option list"
  | ds_Select "gexp anyarg list"
  | ds_Where "gexp option list"
  | ds_Order "gexp list"
  | ds_GroupBy "gexp anyarg list"
  | ds_Limit nat
  | ds_Offset nat
  | ds_Prepared bool
  | ds_Rows "(string \<times> val) list"
  | ds_Set "(string \<times> val) list"

text \<open>Calling a builder method on a dataset.\<close>

fun call :: "dataset \<Rightarrow> clause \<Rightarrow> dataset" where
  "call (Dataset k t cs) c = Dataset k t (cs @ [c])"

text \<open>A possibly nil \<open>exp.Expression\<close> stored into an \<open>interface{}\<close>.\<close>

fun toAny :: "gexp option \<Rightarrow> gexp anyarg" where
  "toAny None = NilArg"
| "toAny (Some e) = ExprArg e"

section \<open>The dynamic value resolver (helpers.go) and the compilers of the nodes\<close>

text \<open>
  The one way the functions below can raise: a run-time panic. \<open>NilFunctionCall\<close> is the call
  of a nil \<open>handleAnyOption\<close>; \<open>NilPointerDereference\<close> is a method with a value receiver called
  through a nil pointer.
\<close>

datatype panic = NilFunctionCall | NilPointerDereference

text \<open>
  A \<open>handleAnyOption\<close> is a function value. The package builds it with \<open>withAlias\<close> only, so it
  is \<open>Some alias\<close> for \<open>withAlias(alias)\<close> and \<open>None\<close> for the nil function. \<open>apply_opts\<close> is the
  loop \<open>for _, opt := range opts { opt(&options) }\<close> on the alias held by \<open>options\<close>.
\<close>

type_synonym handleAnyOption = "string option"

definition withAlias :: "string \<Rightarrow> handleAnyOption" where
  "withAlias alias = Some alias"

fun apply_opts :: "handleAnyOption list \<Rightarrow> string \<Rightarrow> panic + string" where
  "apply_opts [] alias = Inr alias"
| "apply_opts (None # opts) alias = Inl NilFunctionCall"
| "apply_opts (Some a # opts) alias = apply_opts opts a"

definition NULL :: gexp where
  "NULL = goqu_L ''NULL'' []"

definition aliased :: "Field \<Rightarrow> bool" where
  "aliased f = (FieldAlias f \<noteq> [])"

definition identifierExpression :: "Field \<Rightarrow> gexp" where
  "identifierExpression f = goqu_C_Table (Name f) (TableAlias f)"

text \<open>The tail of \<open>handleAny\<close> for \<open>Literal\<close>, \<open>Case\<close> and \<open>Coalesce\<close>: the alias, when set.\<close>

definition as_alias :: "string \<Rightarrow> gexp \<Rightarrow> gexp" where
  "as_alias alias e = (if alias \<noteq> [] then As e alias else e)"

text \<open>\<open>Sort.expression\<close>.\<close>

fun Sort_expression :: "Sort \<Rightarrow> gexp" where
  "Sort_expression (Sort n t DescSortDir) = Desc (goqu_C_Table n t)"
| "Sort_expression (Sort n t _) = Asc (goqu_C_Table n t)"

text \<open>The join method that \<open>Relation.join\<close> picks for a join type.\<close>

fun join_clause :: "JoinType \<Rightarrow> gexp \<Rightarrow> gexp option list \<Rightarrow> clause" where
  "join_clause InnerJoinType t on = ds_InnerJoin t on"
| "join_clause LeftJoinType t on = ds_LeftJoin t on"
| "join_clause RightJoinType t on = ds_RightJoin t on"
| "join_clause _ t on = ds_Join t on"

text \<open>The GROUP BY loop of \<open>mainSelect\<close>; an entry that is never assigned stays nil.\<close>

definition group_field :: "Field \<Rightarrow> gexp anyarg" where
  "group_field g =
     (if Name g \<noteq> [] then
        (if TableAlias g \<noteq> [] then ExprArg (identifierExpression g) else StringArg (Name g))
      else if aliased g then StringArg (FieldAlias g)
      else NilArg)"

text \<open>Sizes of the parts of a struct, for the termination proof below.\<close>

lemma size_Exp: "3 * size (Exp f) < Suc (3 * size f)"
  by (cases f) simp

lemma size_Exp_less: "size (Exp f) < size f"
  by (cases f) simp

lemma size_tbl_Relations: "3 * size_list size (tbl_Relations (qb_Table qb)) < Suc (3 * size qb)"
  by (cases qb, cases "qb_Table qb") simp

lemma size_Fields: "3 * size_list size (Fields qb) < Suc (3 * size qb)"
  by (cases qb) simp

lemma size_Wheres: "3 * size_list size (Wheres qb) < Suc (3 * size qb)"
  by (cases qb) simp

lemma size_rel_On: "3 * size_list size (rel_On r) < Suc (3 * size r)"
  by (cases r) simp

lemma size_rel_Table: "3 * size_list size (tbl_Relations (rel_Table r)) < Suc (3 * size r)"
  by (cases r, cases "rel_Table r") simp

text \<open>
  \<open>handleAny\<close> and the \<open>expression\<close> methods call each other. \<open>handleAny_typed\<close> is the part of
  \<open>handleAny\<close> after the pointer has been dereferenced: the chain of type tests on the new
  \<open>a\<close> (whose \<open>reflect\<close> kind is \<open>Slice\<close> exactly for \<open>VSlice\<close>). The loops over a slice are the
  functions named \<open>..._loop\<close>, with the slice being built as the accumulator;
  \<open>Wheres_loop\<close> is the loop \<open>expressions[i] = handleAny(w)\<close> that \<open>mainSelect\<close>, \<open>Edit\<close> and
  \<open>Delete\<close> each contain.

  In \<open>On_loop\<close> (the first loop of \<open>Relation.join\<close>) the type assertion \<open>on.(Condition)\<close> holds
  for the three condition structs and for pointers to them; \<open>toExpression\<close> through a nil
  pointer panics. For every other value the type switch that follows matches nothing (its
  three cases are values that implement \<open>Condition\<close>), so the entry is skipped.

  Termination: every call goes to a strictly smaller value, or to the same value from a
  function that comes earlier in the chain \<open>expression\<close>, loop, \<open>handleAny\<close>,
  \<open>handleAny_typed\<close>.
\<close>

function handleAny :: "val \<Rightarrow> handleAnyOption list \<Rightarrow> panic + gexp option"
  and handleAny_typed :: "val \<Rightarrow> string \<Rightarrow> panic + gexp option"
  and Field_expression :: "Field \<Rightarrow> panic + gexp option"
  and aliasedExpression :: "Field \<Rightarrow> panic + gexp option"
  and BoolOp_expression ::
    "BooleanOperation \<Rightarrow> string \<Rightarrow> string \<Rightarrow> val \<Rightarrow> panic + gexp option"
  and RangeOp_expression ::
    "RangeOperation \<Rightarrow> string \<Rightarrow> string \<Rightarrow> val \<Rightarrow> val \<Rightarrow> panic + gexp option"
  and WhereGroup_expression :: "ExpressionListType \<Rightarrow> val list \<Rightarrow> panic + gexp option"
  and WhereGroup_loop :: "val list \<Rightarrow> gexp list \<Rightarrow> panic + gexp list"
  and Literal_expression :: "string \<Rightarrow> val list \<Rightarrow> panic + gexp"
  and Literal_loop :: "val list \<Rightarrow> gexp anyarg list \<Rightarrow> panic + gexp anyarg list"
  and Case_expression :: "(val \<times> val) list \<Rightarrow> val \<Rightarrow> panic + gexp"
  and Case_loop :: "(val \<times> val) list \<Rightarrow> (gexp anyarg \<times> gexp anyarg) list
      \<Rightarrow> panic + (gexp anyarg \<times> gexp anyarg) list"
  and Coalesce_expression :: "Field list \<Rightarrow> val \<Rightarrow> panic + gexp"
  and Fields_loop :: "Field list \<Rightarrow> gexp anyarg list \<Rightarrow> panic + gexp anyarg list"
  and mainSelect :: "SQLBuilder \<Rightarrow> panic + dataset"
  and Wheres_loop :: "val list \<Rightarrow> gexp option list \<Rightarrow> panic + gexp option list"
  and Relations_loop :: "Relation list \<Rightarrow> dataset \<Rightarrow> panic + dataset"
  and Relation_join :: "Relation \<Rightarrow> dataset \<Rightarrow> panic + dataset"
  and On_loop :: "val list \<Rightarrow> gexp option list \<Rightarrow> panic + gexp option list"
where
  "handleAny a opts =
     (if a = VNil then Inr (Some NULL)
      else case apply_opts opts [] of Inl p \<Rightarrow> Inl p
      | Inr alias \<Rightarrow>
          (case a of
             VNilPtr t \<Rightarrow> Inr (Some NULL)
           | VPtr v \<Rightarrow> handleAny_typed v alias
           | VPtrToAny v \<Rightarrow> handleAny_typed v alias
           | _ \<Rightarrow> handleAny_typed a alias))"

| "handleAny_typed a alias =
     (case a of
        VSQLBuilder qb \<Rightarrow>
          (case mainSelect qb of Inl p \<Rightarrow> Inl p | Inr ds \<Rightarrow> Inr (Some (SelectDataset ds)))
      | VField f \<Rightarrow> Field_expression f
      | VBoolOp op fieldName tableAlias v \<Rightarrow> BoolOp_expression op fieldName tableAlias v
      | VWhereGroup op conditions \<Rightarrow> WhereGroup_expression op conditions
      | VRangeOp op fieldName tableAlias start end \<Rightarrow>
          RangeOp_expression op fieldName tableAlias start end
      | VLiteral v args \<Rightarrow>
          (case Literal_expression v args of Inl p \<Rightarrow> Inl p
           | Inr e \<Rightarrow> Inr (Some (as_alias alias e)))
      | VCase conditions els \<Rightarrow>
          (case Case_expression conditions els of Inl p \<Rightarrow> Inl p
           | Inr e \<Rightarrow> Inr (Some (as_alias alias e)))
      | VCoalesce fields d \<Rightarrow>
          (case Coalesce_expression fields d of Inl p \<Rightarrow> Inl p
           | Inr e \<Rightarrow> Inr (Some (as_alias alias e)))
      | VExpr n \<Rightarrow> Inr (Some (UserExpression n))
      | VSlice xs \<Rightarrow>
          (if length xs = 0 then Inr (Some (goqu_L ''(?)'' [ExprArg (goqu_V (VSlice []))]))
           else Inr (Some (goqu_V a)))
      | _ \<Rightarrow> Inr (Some (goqu_V a)))"

| "Field_expression f =
     (if Exp f \<noteq> VNil then
        handleAny (Exp f)
          [if aliased f then withAlias (FieldAlias f)
           else if Name f \<noteq> [] then withAlias (Name f)
           else None]
      else if aliased f then aliasedExpression f
      else Inr (Some (identifierExpression f)))"
| "aliasedExpression f =
     (if Exp f \<noteq> VNil then handleAny (Exp f) [withAlias (FieldAlias f)]
      else Inr (Some (As (identifierExpression f) (FieldAlias f))))"

| "BoolOp_expression op fieldName tableAlias v =
     (case op of
        OtherBooleanOperation n \<Rightarrow> Inr None
      | _ \<Rightarrow>
        (case handleAny v [] of Inl p \<Rightarrow> Inl p
         | Inr e \<Rightarrow> Inr (Some (BooleanExpression op
                 (identifierExpression (Field fieldName tableAlias [] VNil)) (toAny e)))))"

| "RangeOp_expression op fieldName tableAlias start end =
     (case handleAny start [] of Inl p \<Rightarrow> Inl p
      | Inr s \<Rightarrow>
     (case handleAny end [] of Inl p \<Rightarrow> Inl p
      | Inr e \<Rightarrow>
        (let field = Field fieldName tableAlias [] VNil;
             rangeVal = goqu_Range (toAny s) (toAny e)
         in case op of
              NotBetweenOp \<Rightarrow> Inr (Some (NotBetween (identifierExpression field) rangeVal))
            | _ \<Rightarrow> Inr (Some (Between (identifierExpression field) rangeVal)))))"

| "WhereGroup_expression op conditions =
     (case WhereGroup_loop conditions [] of Inl p \<Rightarrow> Inl p
      | Inr exps \<Rightarrow>
          if length exps = 0 then Inr None
          else (case op of OrType \<Rightarrow> Inr (Some (goqu_Or exps))
                | _ \<Rightarrow> Inr (Some (goqu_And exps))))"
| "WhereGroup_loop [] exps = Inr exps"
| "WhereGroup_loop (cond # conds) exps =
     (case (case cond of
              VBoolOp op fieldName tableAlias v \<Rightarrow> BoolOp_expression op fieldName tableAlias v
            | VRangeOp op fieldName tableAlias start end \<Rightarrow>
                RangeOp_expression op fieldName tableAlias start end
            | VWhereGroup op conditions \<Rightarrow> WhereGroup_expression op conditions
            | _ \<Rightarrow> Inr None) of
        Inl p \<Rightarrow> Inl p
      | Inr None \<Rightarrow> WhereGroup_loop conds exps
      | Inr (Some expr) \<Rightarrow> WhereGroup_loop conds (exps @ [expr]))"

| "Literal_expression v args =
     (case Literal_loop args [] of Inl p \<Rightarrow> Inl p
      | Inr argContainer \<Rightarrow> Inr (goqu_L v argContainer))"
| "Literal_loop [] argContainer = Inr argContainer"
| "Literal_loop (arg # args) argContainer =
     (case handleAny arg [] of Inl p \<Rightarrow> Inl p
      | Inr e \<Rightarrow> Literal_loop args (argContainer @ [toAny e]))"

| "Case_expression conditions els =
     (case Case_loop conditions [] of Inl p \<Rightarrow> Inl p
      | Inr whens \<Rightarrow>
          if els \<noteq> VNil then
            (case handleAny els [] of Inl p \<Rightarrow> Inl p
             | Inr e \<Rightarrow> Inr (goqu_Case whens (Some (toAny e))))
          else Inr (goqu_Case whens None))"
| "Case_loop [] whens = Inr whens"
| "Case_loop (wt # conds) whens =
     (case handleAny (fst wt) [] of Inl p \<Rightarrow> Inl p
      | Inr w \<Rightarrow>
     (case handleAny (snd wt) [] of Inl p \<Rightarrow> Inl p
      | Inr t \<Rightarrow> Case_loop conds (whens @ [(toAny w, toAny t)])))"

| "Coalesce_expression fs d =
     (case Fields_loop fs [] of Inl p \<Rightarrow> Inl p
      | Inr fields \<Rightarrow>
          if d \<noteq> VNil then
            (case handleAny d [] of Inl p \<Rightarrow> Inl p
             | Inr e \<Rightarrow> Inr (goqu_COALESCE (fields @ [toAny e])))
          else Inr (goqu_COALESCE fields))"
| "Fields_loop [] fields = Inr fields"
| "Fields_loop (f # fs) fields =
     (case Field_expression f of Inl p \<Rightarrow> Inl p
      | Inr e \<Rightarrow> Fields_loop fs (fields @ [toAny e]))"

| "mainSelect qb =
     (let table = qb_Table qb;
          ds = call (Dataset FromK (As (goqu_T (tbl_Name table)) (tbl_Alias table)) [])
                 (ds_WithDialect (Dialect qb))
      in case Relations_loop (tbl_Relations table) ds of Inl p \<Rightarrow> Inl p
      | Inr ds \<Rightarrow>
     (case (if length (Fields qb) > 0 then
              (case Fields_loop (Fields qb) [] of Inl p \<Rightarrow> Inl p
               | Inr selects \<Rightarrow> Inr (call ds (ds_Select selects)))
            else Inr ds) of Inl p \<Rightarrow> Inl p
      | Inr ds \<Rightarrow>
     (case (if length (Wheres qb) > 0 then
              (case Wheres_loop (Wheres qb) [] of Inl p \<Rightarrow> Inl p
               | Inr expressions \<Rightarrow> Inr (call ds (ds_Where expressions)))
            else Inr ds) of Inl p \<Rightarrow> Inl p
      | Inr ds \<Rightarrow>
        (let ds = (if length (Sorts qb) > 0
                   then call ds (ds_Order (map Sort_expression (Sorts qb))) else ds);
             ds = (if length (GroupBy qb) > 0
                   then call ds (ds_GroupBy (map group_field (GroupBy qb))) else ds)
         in Inr ds))))"
| "Wheres_loop [] expressions = Inr expressions"
| "Wheres_loop (w # ws) expressions =
     (case handleAny w [] of Inl p \<Rightarrow> Inl p
      | Inr e \<Rightarrow> Wheres_loop ws (expressions @ [e]))"

| "Relations_loop [] ds = Inr ds"
| "Relations_loop (rel # rels) ds =
     (case Relation_join rel ds of Inl p \<Rightarrow> Inl p | Inr ds \<Rightarrow> Relations_loop rels ds)"
| "Relation_join r ds =
     (let table = rel_Table r in
      case On_loop (rel_On r) [] of Inl p \<Rightarrow> Inl p
      | Inr onConds \<Rightarrow>
          Relations_loop (tbl_Relations table)
            (call ds (join_clause (rel_JoinType r)
                        (As (goqu_T (tbl_Name table)) (tbl_Alias table)) onConds)))"
| "On_loop [] onConds = Inr onConds"
| "On_loop (on # ons) onConds =
     (case on of
        VBoolOp op fieldName tableAlias v \<Rightarrow>
          (case BoolOp_expression op fieldName tableAlias v of Inl p \<Rightarrow> Inl p
           | Inr e \<Rightarrow> On_loop ons (onConds @ [e]))
      | VRangeOp op fieldName tableAlias start end \<Rightarrow>
          (case RangeOp_expression op fieldName tableAlias start end of Inl p \<Rightarrow> Inl p
           | Inr e \<Rightarrow> On_loop ons (onConds @ [e]))
      | VWhereGroup op conditions \<Rightarrow>
          (case WhereGroup_expression op conditions of Inl p \<Rightarrow> Inl p
           | Inr e \<Rightarrow> On_loop ons (onConds @ [e]))
      | VPtr x \<Rightarrow>
          (case x of
             VBoolOp op fieldName tableAlias v \<Rightarrow>
               (case BoolOp_expression op fieldName tableAlias v of Inl p \<Rightarrow> Inl p
                | Inr e \<Rightarrow> On_loop ons (onConds @ [e]))
           | VRangeOp op fieldName tableAlias start end \<Rightarrow>
               (case RangeOp_expression op fieldName tableAlias start end of Inl p \<Rightarrow> Inl p
                | Inr e \<Rightarrow> On_loop ons (onConds @ [e]))
           | VWhereGroup op conditions \<Rightarrow>
               (case WhereGroup_expression op conditions of Inl p \<Rightarrow> Inl p
                | Inr e \<Rightarrow> On_loop ons (onConds @ [e]))
           | _ \<Rightarrow> On_loop ons onConds)
      | VNilPtr t \<Rightarrow>
          (case t of PtrOther \<Rightarrow> On_loop ons onConds | _ \<Rightarrow> Inl NilPointerDereference)
      | _ \<Rightarrow> On_loop ons onConds)"
  by pat_completeness auto

termination
  by (relation "measure
    (case_sum
      (case_sum
        (case_sum
          (case_sum
            (\<lambda>(a, opts). 3 * size a + 1)
            (\<lambda>(a, alias). 3 * size a))
          (case_sum
            (\<lambda>f. 3 * size f + 2)
            (\<lambda>f. 3 * size f + 1)))
        (case_sum
          (case_sum
            (\<lambda>(op, fieldName, tableAlias, v). 3 * size v + 2)
            (\<lambda>(op, fieldName, tableAlias, start, end). 3 * (size start + size end) + 2))
          (case_sum
            (\<lambda>(op, conditions). 3 * size_list size conditions + 2)
            (case_sum
              (\<lambda>(conds, exps). 3 * size_list size conds + 1)
              (\<lambda>(v, args). 3 * size_list size args + 2)))))
      (case_sum
        (case_sum
          (case_sum
            (\<lambda>(args, argContainer). 3 * size_list size args + 1)
            (\<lambda>(conditions, els). 3 * (size_list (size_prod size size) conditions + size els) + 2))
          (case_sum
            (\<lambda>(conds, whens). 3 * size_list (size_prod size size) conds + 1)
            (case_sum
              (\<lambda>(fs, d). 3 * (size_list size fs + size d) + 2)
              (\<lambda>(fs, fields). 3 * size_list size fs + 1))))
        (case_sum
          (case_sum
            (\<lambda>qb. 3 * size qb + 2)
            (\<lambda>(ws, expressions). 3 * size_list size ws + 1))
          (case_sum
            (\<lambda>(rels, ds). 3 * size_list size rels + 1)
            (case_sum
              (\<lambda>(r, ds). 3 * size r + 2)
              (\<lambda>(ons, onConds). 3 * size_list size ons + 1))))))")
   (auto simp: size_Exp size_Exp_less size_tbl_Relations size_Fields size_Wheres size_rel_On size_rel_Table)

declare handleAny.simps [simp del] handleAny_typed.simps [simp del]
  Field_expression.simps [simp del] aliasedExpression.simps [simp del]
  BoolOp_expression.simps [simp del] RangeOp_expression.simps [simp del]
  WhereGroup_expression.simps [simp del] Literal_expression.simps [simp del]
  Case_expression.simps [simp del] Coalesce_expression.simps [simp del]
  mainSelect.simps [simp del] Relation_join.simps [simp del]

section \<open>The builder (the file of \<open>SQLBuilder\<close>)\<close>

text \<open>
  \<open>ToSQL\<close> is goqu's renderer, which is not part of the repository: it is the parameter
  \<open>toSQL\<close> of the functions that end with it. A result is the triple that the Go function
  returns: the query string, the bound arguments (\<open>None\<close> for a nil slice) and the error
  (\<open>None\<close> for nil). \<open>uint\<close> is a natural number: the code only compares it with zero.
\<close>

datatype sqlerror = ErrMissingWhereCondition | BackendError string

type_synonym sqlresult = "string \<times> val list option \<times> sqlerror option"

definition New :: "string \<Rightarrow> string \<Rightarrow> string \<Rightarrow> SQLBuilder" where
  "New dialect tableName tableAlias =
     SQLBuilder dialect [] (Table tableName tableAlias []) [] [] [] 10 0"

fun Where :: "SQLBuilder \<Rightarrow> val list \<Rightarrow> SQLBuilder" where
  "Where (SQLBuilder d fs t ws ss gs l off) conditions =
     SQLBuilder d fs t (ws @ conditions) ss gs l off"

fun Limit :: "SQLBuilder \<Rightarrow> nat \<Rightarrow> SQLBuilder" where
  "Limit (SQLBuilder d fs t ws ss gs l off) n = SQLBuilder d fs t ws ss gs n off"

fun Offset :: "SQLBuilder \<Rightarrow> nat \<Rightarrow> SQLBuilder" where
  "Offset (SQLBuilder d fs t ws ss gs l off) n = SQLBuilder d fs t ws ss gs l n"

definition applyLimitOffset :: "SQLBuilder \<Rightarrow> dataset \<Rightarrow> dataset" where
  "applyLimitOffset qb ds =
     (let ds = (if limit qb > 0 then call ds (ds_Limit (limit qb)) else ds);
          ds = (if offset qb > 0 then call ds (ds_Offset (offset qb)) else ds)
      in ds)"

definition Count :: "(dataset \<Rightarrow> sqlresult) \<Rightarrow> SQLBuilder \<Rightarrow> panic + sqlresult" where
  "Count toSQL qb =
     (case mainSelect qb of Inl p \<Rightarrow> Inl p
      | Inr ds \<Rightarrow>
          (let ds = applyLimitOffset qb ds;
               ds = call ds (ds_Prepared True)
           in Inr (toSQL (call ds (ds_Select [ExprArg (goqu_COUNT goqu_Star)])))))"

definition Select :: "(dataset \<Rightarrow> sqlresult) \<Rightarrow> SQLBuilder \<Rightarrow> panic + sqlresult" where
  "Select toSQL qb =
     (case mainSelect qb of Inl p \<Rightarrow> Inl p
      | Inr ds \<Rightarrow>
          (let ds = applyLimitOffset qb ds;
               ds = call ds (ds_Prepared True)
           in Inr (toSQL ds)))"

definition Add :: "(dataset \<Rightarrow> sqlresult) \<Rightarrow> SQLBuilder \<Rightarrow> (string \<times> val) list \<Rightarrow> sqlresult" where
  "Add toSQL qb entry =
     toSQL (call (call (call (Dataset InsertK (goqu_T (tbl_Name (qb_Table qb))) [])
                    (ds_WithDialect (Dialect qb))) (ds_Rows entry)) (ds_Prepared True))"

definition Edit ::
    "(dataset \<Rightarrow> sqlresult) \<Rightarrow> SQLBuilder \<Rightarrow> (string \<times> val) list \<Rightarrow> panic + sqlresult" where
  "Edit toSQL qb entry =
     (if length (Wheres qb) = 0 then Inr ([], None, Some ErrMissingWhereCondition)
      else
        (let ds = call (Dataset UpdateK (goqu_T (tbl_Name (qb_Table qb))) [])
                    (ds_WithDialect (Dialect qb))
         in case Wheres_loop (Wheres qb) [] of Inl p \<Rightarrow> Inl p
            | Inr expressions \<Rightarrow>
                (let ds = call ds (ds_Where expressions);
                     ds = call (call ds (ds_Set entry)) (ds_Prepared True)
                 in Inr (toSQL ds))))"

definition Delete :: "(dataset \<Rightarrow> sqlresult) \<Rightarrow> SQLBuilder \<Rightarrow> panic + sqlresult" where
  "Delete toSQL qb =
     (if length (Wheres qb) = 0 then Inr ([], None, Some ErrMissingWhereCondition)
      else
        (let ds = call (Dataset DeleteK (goqu_T (tbl_Name (qb_Table qb))) [])
                    (ds_WithDialect (Dialect qb))
         in case Wheres_loop (Wheres qb) [] of Inl p \<Rightarrow> Inl p
            | Inr expressions \<Rightarrow>
                (let ds = call ds (ds_Where expressions);
                     ds = call ds (ds_Prepared True)
                 in Inr (toSQL ds))))"

section \<open>JSON values and the decoding of \<open>encoding/json\<close>\<close>

text \<open>
  The decoder works on a parsed JSON value (text that is not JSON is rejected before any
  code of the package runs). An object keeps its members in input order, and a string is the
  sequence of its UTF-8 bytes. A number literal is kept as what the decoder makes of it with
  \<open>strconv.ParseFloat\<close>: the \<open>float64\<close> nearest to it, given by its value (\<open>1.5\<close> is
  \<open>Float64 (3 / 2)\<close>, and \<open>9007199254740993\<close> is \<open>Float64 9007199254740992\<close>), or
  \<open>OutOfRange\<close> when the literal lies outside the range of \<open>float64\<close> (\<open>1e400\<close>). The
  rounding is the library's and is not computed here.
\<close>

datatype jnumber = Float64 rat | OutOfRange

datatype json =
    JNull
  | JBool bool
  | JNum jnumber
  | JStr string
  | JArr "json list"
  | JObj "(string \<times> json) list"

text \<open>
  The errors of the decoder: the type error of \<open>encoding/json\<close> (a JSON value of the wrong
  kind for the Go type, or a number outside \<open>float64\<close>), the two errors of the shape sniffer,
  and \<open>fmt.Errorf\<close> with \<open>%w\<close> around another error, with the index when the message has
  one. A call ends in one of three ways: it returns a value (\<open>Inr\<close>), it returns an error, or
  it panics.
\<close>

datatype jerror =
    UnmarshalTypeError
  | UnknownConditionType
  | UnknownExpressionType
  | Errorf string jerror
  | ErrorfAt string nat jerror

datatype failure = Error jerror | Panic panic

text \<open>
  \<open>json.Unmarshal\<close> into an \<open>any\<close>. A number becomes a \<open>float64\<close>; a number out of range
  leaves nil in its place and makes the call return the type error. An object becomes a map,
  in which a later member replaces an earlier one of the same name (the list \<open>VMap\<close> holds
  the entries of the map in the order of their last occurrence).
\<close>

fun last_wins :: "(string \<times> 'a) list \<Rightarrow> (string \<times> 'a) list" where
  "last_wins [] = []"
| "last_wins (kv # kvs) =
     (if fst kv \<in> fst ` set kvs then last_wins kvs else kv # last_wins kvs)"

primrec numbers_in_range :: "json \<Rightarrow> bool" where
  "numbers_in_range JNull = True"
| "numbers_in_range (JBool b) = True"
| "numbers_in_range (JNum n) = (n \<noteq> OutOfRange)"
| "numbers_in_range (JStr s) = True"
| "numbers_in_range (JArr xs) = list_all (\<lambda>b. b) (map numbers_in_range xs)"
| "numbers_in_range (JObj kvs) = list_all snd (map (map_prod id numbers_in_range) kvs)"

primrec json_to_any :: "json \<Rightarrow> val" where
  "json_to_any JNull = VNil"
| "json_to_any (JBool b) = VBool b"
| "json_to_any (JNum n) = (case n of Float64 r \<Rightarrow> VNum r | OutOfRange \<Rightarrow> VNil)"
| "json_to_any (JStr s) = VStr s"
| "json_to_any (JArr xs) = VSlice (map json_to_any xs)"
| "json_to_any (JObj kvs) = VMap (last_wins (map (map_prod id json_to_any) kvs))"

definition Unmarshal_any :: "json \<Rightarrow> jerror + val" where
  "Unmarshal_any data =
     (if numbers_in_range data then Inr (json_to_any data) else Inl UnmarshalTypeError)"

text \<open>
  \<open>json.Unmarshal\<close> into a \<open>map[string]json.RawMessage\<close> (the \<open>typeDetector\<close> of the two
  sniffers): the keys are taken as they are written, a later member replaces an earlier one of
  the same name, \<open>null\<close> gives the nil map, and any other value is a type error.
\<close>

fun typeDetector :: "json \<Rightarrow> jerror + (string \<Rightarrow> json option)" where
  "typeDetector (JObj kvs) = Inr (map_of (rev kvs))"
| "typeDetector JNull = Inr (\<lambda>k. None)"
| "typeDetector _ = Inl UnmarshalTypeError"

text \<open>
  \<open>json.Unmarshal\<close> of an object into a struct takes the members in input order and stores
  each one into the field whose name it spells, letter case ignored. \<open>foldName\<close> is the
  folding that \<open>encoding/json\<close> compares names by: an ASCII letter goes to its upper case, and
  so do the two other letters of Unicode that fold to an ASCII letter, U+017F (long s, the
  bytes C5 BF) and U+212A (Kelvin sign, the bytes E2 84 AA); no other character folds to an
  ASCII one, and the field names of the package are ASCII. \<open>members name kvs\<close> are the values
  of the members that reach the field \<open>name\<close>, in input order.
\<close>

definition foldChar :: "char \<Rightarrow> char" where
  "foldChar c =
     (case map_of (zip ''abcdefghijklmnopqrstuvwxyz'' ''ABCDEFGHIJKLMNOPQRSTUVWXYZ'') c of
        Some u \<Rightarrow> u | None \<Rightarrow> c)"

fun foldName :: "string \<Rightarrow> string" where
  "foldName (c1 # c2 # c3 # cs) =
     (if c1 = CHR 0xC5 \<and> c2 = CHR 0xBF then CHR ''S'' # foldName (c3 # cs)
      else if c1 = CHR 0xE2 \<and> c2 = CHR 0x84 \<and> c3 = CHR 0xAA then CHR ''K'' # foldName cs
      else foldChar c1 # foldName (c2 # c3 # cs))"
| "foldName [c1, c2] =
     (if c1 = CHR 0xC5 \<and> c2 = CHR 0xBF then [CHR ''S''] else [foldChar c1, foldChar c2])"
| "foldName [c1] = [foldChar c1]"
| "foldName [] = []"

definition members :: "string \<Rightarrow> (string \<times> json) list \<Rightarrow> json list" where
  "members name kvs = map snd (filter (\<lambda>kv. foldName (fst kv) = foldName name) kvs)"

text \<open>
  What the members that reach one field leave in it, by the type of the field.

  \<^item> \<open>string\<close>: a JSON string sets it, \<open>null\<close> leaves it as it is, and any other value is a
    type error (\<open>None\<close>); \<open>string_field s ms\<close> starts from the string \<open>s\<close>.
  \<^item> \<open>json.RawMessage\<close>: every value (\<open>null\<close> too) is stored as it is written, so the field
    holds the last one; without a member it stays empty (\<open>None\<close>).
  \<^item> \<open>[]json.RawMessage\<close>: an array sets the slice to its entries, \<open>null\<close> sets it to nil, and
    any other value is a type error.

  A type error does not stop \<open>encoding/json\<close>: it goes on with the next member and returns
  the error at the end, unless an \<open>UnmarshalJSON\<close> that it calls on the way fails or panics.
\<close>

fun string_field :: "string \<Rightarrow> json list \<Rightarrow> string option" where
  "string_field s [] = Some s"
| "string_field s (JStr t # ms) = string_field t ms"
| "string_field s (JNull # ms) = string_field s ms"
| "string_field s (m # ms) = None"

definition raw_field :: "json list \<Rightarrow> json option" where
  "raw_field ms = (if ms = [] then None else Some (last ms))"

fun raw_list_field :: "json list \<Rightarrow> json list \<Rightarrow> json list option" where
  "raw_list_field raws [] = Some raws"
| "raw_list_field raws (JArr xs # ms) = raw_list_field xs ms"
| "raw_list_field raws (JNull # ms) = raw_list_field [] ms"
| "raw_list_field raws (m # ms) = None"

fun is_array_or_null :: "json \<Rightarrow> bool" where
  "is_array_or_null (JArr xs) = True"
| "is_array_or_null JNull = True"
| "is_array_or_null m = False"

text \<open>
  The test of \<open>unmarshalExpression\<close> for a \<open>Case\<close>: \<open>testConditions\<close> is
  \<open>json.Unmarshal(conditionsRaw, &testConditions)\<close> into a \<open>[]map[string]any\<close>, which
  succeeds for \<open>null\<close> and for an array whose entries are all objects or \<open>null\<close> and hold no
  number out of range; the node is a \<open>Case\<close> when that succeeds, the slice is not empty and
  its first map has the key \<open>when\<close>.
\<close>

fun testCondition :: "json \<Rightarrow> (string \<Rightarrow> json option) option" where
  "testCondition (JObj kvs) =
     (if numbers_in_range (JObj kvs) then Some (map_of (rev kvs)) else None)"
| "testCondition JNull = Some (\<lambda>k. None)"
| "testCondition _ = None"

fun testConditions :: "json \<Rightarrow> (string \<Rightarrow> json option) list option" where
  "testConditions JNull = Some []"
| "testConditions (JArr xs) =
     (if list_all (\<lambda>x. testCondition x \<noteq> None) xs then Some (map (the \<circ> testCondition) xs)
      else None)"
| "testConditions _ = None"

definition hasCaseShape :: "(string \<Rightarrow> json option) \<Rightarrow> bool" where
  "hasCaseShape td =
     (case td ''conditions'' of
        None \<Rightarrow> False
      | Some conditionsRaw \<Rightarrow>
          (case testConditions conditionsRaw of
             None \<Rightarrow> False
           | Some [] \<Rightarrow> False
           | Some (first # rest) \<Rightarrow> first ''when'' \<noteq> None))"

section \<open>The operator names (the file of the sniffers)\<close>

fun boolOpToString :: "BooleanOperation \<Rightarrow> string" where
  "boolOpToString EqOp = ''eq''"
| "boolOpToString NeqOp = ''neq''"
| "boolOpToString IsOp = ''is''"
| "boolOpToString IsNotOp = ''isNot''"
| "boolOpToString GtOp = ''gt''"
| "boolOpToString GteOp = ''gte''"
| "boolOpToString LtOp = ''lt''"
| "boolOpToString LteOp = ''lte''"
| "boolOpToString InOp = ''in''"
| "boolOpToString NotInOp = ''notIn''"
| "boolOpToString LikeOp = ''like''"
| "boolOpToString NotLikeOp = ''notLike''"
| "boolOpToString ILikeOp = ''iLike''"
| "boolOpToString NotILikeOp = ''notILike''"
| "boolOpToString _ = ''eq''"

definition stringToBoolOp :: "string \<Rightarrow> BooleanOperation" where
  "stringToBoolOp s =
     (if s = ''eq'' then EqOp
      else if s = ''neq'' then NeqOp
      else if s = ''is'' then IsOp
      else if s = ''isNot'' then IsNotOp
      else if s = ''gt'' then GtOp
      else if s = ''gte'' then GteOp
      else if s = ''lt'' then LtOp
      else if s = ''lte'' then LteOp
      else if s = ''in'' then InOp
      else if s = ''notIn'' then NotInOp
      else if s = ''like'' then LikeOp
      else if s = ''notLike'' then NotLikeOp
      else if s = ''iLike'' then ILikeOp
      else if s = ''notILike'' then NotILikeOp
      else EqOp)"

fun rangeOpToString :: "RangeOperation \<Rightarrow> string" where
  "rangeOpToString BetweenOp = ''between''"
| "rangeOpToString NotBetweenOp = ''notBetween''"
| "rangeOpToString _ = ''between''"

definition stringToRangeOp :: "string \<Rightarrow> RangeOperation" where
  "stringToRangeOp s =
     (if s = ''between'' then BetweenOp
      else if s = ''notBetween'' then NotBetweenOp
      else BetweenOp)"

fun expressionListTypeToString :: "ExpressionListType \<Rightarrow> string" where
  "expressionListTypeToString AndType = ''AND''"
| "expressionListTypeToString OrType = ''OR''"
| "expressionListTypeToString _ = ''AND''"

definition stringToExpressionListType :: "string \<Rightarrow> ExpressionListType" where
  "stringToExpressionListType s =
     (if s = ''OR'' then OrType
      else if s = ''AND'' then AndType
      else AndType)"

section \<open>The shape-sniffing decoder\<close>

text \<open>Sizes, for the termination proof below: what a field holds is smaller than the object.\<close>

lemma size_members:
  "size_list size (members name kvs) \<le> size_list (size_prod (\<lambda>x. 0) size) kvs"
  by (induction kvs) (auto simp: members_def comp_def)

lemma size_last: "ms \<noteq> [] \<Longrightarrow> size (last ms) < size_list size ms"
  by (induction ms) auto

lemma size_raw_field:
  "raw_field (members name kvs) = Some raw \<Longrightarrow> size raw < size (JObj kvs)"
proof -
  assume "raw_field (members name kvs) = Some raw"
  then have "members name kvs \<noteq> []" and "raw = last (members name kvs)"
    by (auto simp: raw_field_def split: if_splits)
  then have "size raw < size_list size (members name kvs)"
    using size_last by blast
  then show ?thesis
    using size_members [of name kvs] by simp
qed

lemma size_raw_list_acc:
  "raw_list_field acc ms = Some raws \<Longrightarrow>
   size_list size raws \<le> max (size_list size acc) (size_list size ms)"
proof (induction ms arbitrary: acc)
  case Nil
  then show ?case by simp
next
  case (Cons m ms)
  show ?case
  proof (cases m)
    case JNull
    with Cons.prems have "raw_list_field [] ms = Some raws" by simp
    from Cons.IH [OF this] show ?thesis by simp
  next
    case (JArr xs)
    with Cons.prems have "raw_list_field xs ms = Some raws" by simp
    from Cons.IH [OF this] show ?thesis using JArr by simp
  qed (use Cons.prems in simp_all)
qed

lemma size_raw_list_field:
  "raw_list_field [] (members name kvs) = Some raws \<Longrightarrow> size_list size raws < size (JObj kvs)"
proof -
  assume "raw_list_field [] (members name kvs) = Some raws"
  from size_raw_list_acc [OF this] have "size_list size raws \<le> size_list size (members name kvs)"
    by simp
  then show ?thesis
    using size_members [of name kvs] by simp
qed

lemma size_members_less:
  "4 * size_list size (members name kvs) < 5 + 4 * size_list (size_prod (\<lambda>x. 0) size) kvs"
  using size_members [of name kvs] by simp

text \<open>
  The two sniffers, \<open>unmarshalValue\<close> and the \<open>UnmarshalJSON\<close> methods they end in call each
  other. Each \<open>UnmarshalJSON\<close> first decodes \<open>data\<close> into its \<open>aux\<close> struct and then works on
  the raw members; a loop over raw entries carries the index for the error message and the
  slice being filled. \<open>aux\<close> is a pointer to a struct and \<open>json.Unmarshal\<close> is given its
  address, so \<open>null\<close> sets \<open>aux\<close> to nil and the first use of a field of \<open>aux\<close> panics.

  \<open>Coalesce\<close> has no \<open>UnmarshalJSON\<close>: \<open>Coalesce_Unmarshal\<close> is what \<open>encoding/json\<close> does for
  the struct (\<open>Fields\<close> through \<open>Field.UnmarshalJSON\<close>, \<open>DefaultValue\<close> as a plain \<open>any\<close>).
  \<open>Coalesce_fields_field\<close> and \<open>Case_conditions_field\<close> are what it does with the members that
  reach a field of type \<open>[]Field\<close> or \<open>[]WhenThen\<close>: an array is decoded entry by entry with
  the \<open>UnmarshalJSON\<close> of the element type (\<open>Coalesce_fields_loop\<close>, \<open>Case_conditions_loop\<close>), and
  an error or a panic of that method ends the whole decoding at once. When such a member
  occurs a second time, Go decodes the later array into the elements that the earlier one
  left behind; here each element starts empty, which gives the same elements unless an entry
  of the later array leaves out a member that the earlier one had.

  Termination: every call goes to a member or an entry of \<open>data\<close>, or to \<open>data\<close> itself
  from a function that comes earlier in the chain \<open>unmarshalValue\<close>, sniffer,
  \<open>UnmarshalJSON\<close>.
\<close>

function unmarshalValue :: "json \<Rightarrow> failure + val"
  and unmarshalCondition :: "json \<Rightarrow> failure + val"
  and unmarshalExpression :: "json \<Rightarrow> failure + val"
  and BoolOp_UnmarshalJSON :: "json \<Rightarrow> failure + val"
  and RangeOp_UnmarshalJSON :: "json \<Rightarrow> failure + val"
  and WhereGroup_UnmarshalJSON :: "json \<Rightarrow> failure + val"
  and WhereGroup_conditions_loop :: "json list \<Rightarrow> nat \<Rightarrow> val list \<Rightarrow> failure + val list"
  and Literal_UnmarshalJSON :: "json \<Rightarrow> failure + val"
  and Literal_args_loop :: "json list \<Rightarrow> nat \<Rightarrow> val list \<Rightarrow> failure + val list"
  and Field_UnmarshalJSON :: "json \<Rightarrow> failure + Field"
  and WhenThen_UnmarshalJSON :: "json \<Rightarrow> failure + (val \<times> val)"
  and Case_UnmarshalJSON :: "json \<Rightarrow> failure + val"
  and Case_conditions_field ::
    "json list \<Rightarrow> (val \<times> val) list \<Rightarrow> failure + (val \<times> val) list"
  and Case_conditions_loop :: "json list \<Rightarrow> (val \<times> val) list \<Rightarrow> failure + (val \<times> val) list"
  and Coalesce_Unmarshal :: "json \<Rightarrow> failure + val"
  and Coalesce_fields_field :: "json list \<Rightarrow> Field list \<Rightarrow> failure + Field list"
  and Coalesce_fields_loop :: "json list \<Rightarrow> Field list \<Rightarrow> failure + Field list"
where
  "unmarshalValue data =
     (case unmarshalExpression data of
        Inr v \<Rightarrow> Inr v
      | Inl (Panic p) \<Rightarrow> Inl (Panic p)
      | Inl (Error err) \<Rightarrow>
          (case Unmarshal_any data of
             Inl err \<Rightarrow> Inl (Error err)
           | Inr simpleValue \<Rightarrow> Inr simpleValue))"

| "unmarshalCondition data =
     (case typeDetector data of Inl err \<Rightarrow> Inl (Error err)
      | Inr td \<Rightarrow>
          if td ''op'' \<noteq> None then
            (if td ''fieldName'' \<noteq> None then
               (if td ''start'' \<noteq> None then RangeOp_UnmarshalJSON data
                else BoolOp_UnmarshalJSON data)
             else if td ''conditions'' \<noteq> None then WhereGroup_UnmarshalJSON data
             else Inl (Error UnknownConditionType))
          else Inl (Error UnknownConditionType))"

| "unmarshalExpression data =
     (case typeDetector data of Inl err \<Rightarrow> Inl (Error err)
      | Inr td \<Rightarrow>
          if hasCaseShape td then Case_UnmarshalJSON data
          else if td ''fields'' \<noteq> None then Coalesce_Unmarshal data
          else if td ''value'' \<noteq> None then Literal_UnmarshalJSON data
          else if td ''name'' \<noteq> None then
            (case Field_UnmarshalJSON data of Inl f \<Rightarrow> Inl f | Inr field \<Rightarrow> Inr (VField field))
          else if td ''op'' \<noteq> None \<and> td ''fieldName'' \<noteq> None then
            (if td ''start'' \<noteq> None then RangeOp_UnmarshalJSON data
             else BoolOp_UnmarshalJSON data)
          else Inl (Error UnknownExpressionType))"

| "BoolOp_UnmarshalJSON data =
     (case data of
        JNull \<Rightarrow> Inl (Panic NilPointerDereference)
      | JObj kvs \<Rightarrow>
     (case string_field [] (members ''op'' kvs) of None \<Rightarrow> Inl (Error UnmarshalTypeError)
      | Some op \<Rightarrow>
     (case string_field [] (members ''fieldName'' kvs) of None \<Rightarrow> Inl (Error UnmarshalTypeError)
      | Some fieldName \<Rightarrow>
     (case string_field [] (members ''tableAlias'' kvs) of None \<Rightarrow> Inl (Error UnmarshalTypeError)
      | Some tableAlias \<Rightarrow>
     (case raw_field (members ''value'' kvs) of
        None \<Rightarrow> Inr (VBoolOp (stringToBoolOp op) fieldName tableAlias VNil)
      | Some raw \<Rightarrow>
          (case unmarshalValue raw of
             Inl (Error err) \<Rightarrow> Inl (Error (Errorf ''failed to unmarshal value'' err))
           | Inl (Panic p) \<Rightarrow> Inl (Panic p)
           | Inr v \<Rightarrow> Inr (VBoolOp (stringToBoolOp op) fieldName tableAlias v))))))
      | _ \<Rightarrow> Inl (Error UnmarshalTypeError))"

| "RangeOp_UnmarshalJSON data =
     (case data of
        JNull \<Rightarrow> Inl (Panic NilPointerDereference)
      | JObj kvs \<Rightarrow>
     (case string_field [] (members ''op'' kvs) of None \<Rightarrow> Inl (Error UnmarshalTypeError)
      | Some op \<Rightarrow>
     (case string_field [] (members ''fieldName'' kvs) of None \<Rightarrow> Inl (Error UnmarshalTypeError)
      | Some fieldName \<Rightarrow>
     (case string_field [] (members ''tableAlias'' kvs) of None \<Rightarrow> Inl (Error UnmarshalTypeError)
      | Some tableAlias \<Rightarrow>
     (case (case raw_field (members ''start'' kvs) of None \<Rightarrow> Inr VNil
            | Some raw \<Rightarrow>
                (case unmarshalValue raw of
                   Inl (Error err) \<Rightarrow> Inl (Error (Errorf ''failed to unmarshal start'' err))
                 | Inl (Panic p) \<Rightarrow> Inl (Panic p)
                 | Inr v \<Rightarrow> Inr v)) of
        Inl f \<Rightarrow> Inl f
      | Inr start \<Rightarrow>
     (case (case raw_field (members ''end'' kvs) of None \<Rightarrow> Inr VNil
            | Some raw \<Rightarrow>
                (case unmarshalValue raw of
                   Inl (Error err) \<Rightarrow> Inl (Error (Errorf ''failed to unmarshal end'' err))
                 | Inl (Panic p) \<Rightarrow> Inl (Panic p)
                 | Inr v \<Rightarrow> Inr v)) of
        Inl f \<Rightarrow> Inl f
      | Inr end \<Rightarrow> Inr (VRangeOp (stringToRangeOp op) fieldName tableAlias start end))))))
      | _ \<Rightarrow> Inl (Error UnmarshalTypeError))"

| "WhereGroup_UnmarshalJSON data =
     (case data of
        JNull \<Rightarrow> Inl (Panic NilPointerDereference)
      | JObj kvs \<Rightarrow>
     (case string_field [] (members ''op'' kvs) of None \<Rightarrow> Inl (Error UnmarshalTypeError)
      | Some op \<Rightarrow>
     (case raw_list_field [] (members ''conditions'' kvs) of
        None \<Rightarrow> Inl (Error UnmarshalTypeError)
      | Some raws \<Rightarrow>
          if length raws > 0 then
            (case WhereGroup_conditions_loop raws 0 [] of Inl f \<Rightarrow> Inl f
             | Inr conditions \<Rightarrow> Inr (VWhereGroup (stringToExpressionListType op) conditions))
          else Inr (VWhereGroup (stringToExpressionListType op) [])))
      | _ \<Rightarrow> Inl (Error UnmarshalTypeError))"
| "WhereGroup_conditions_loop [] i conditions = Inr conditions"
| "WhereGroup_conditions_loop (raw # raws) i conditions =
     (case unmarshalCondition raw of
        Inl (Error err) \<Rightarrow>
          Inl (Error (ErrorfAt ''failed to unmarshal condition at index'' i err))
      | Inl (Panic p) \<Rightarrow> Inl (Panic p)
      | Inr condition \<Rightarrow> WhereGroup_conditions_loop raws (i + 1) (conditions @ [condition]))"

| "Literal_UnmarshalJSON data =
     (case data of
        JNull \<Rightarrow> Inl (Panic NilPointerDereference)
      | JObj kvs \<Rightarrow>
     (case string_field [] (members ''value'' kvs) of None \<Rightarrow> Inl (Error UnmarshalTypeError)
      | Some v \<Rightarrow>
     (case raw_list_field [] (members ''args'' kvs) of None \<Rightarrow> Inl (Error UnmarshalTypeError)
      | Some raws \<Rightarrow>
          if length raws > 0 then
            (case Literal_args_loop raws 0 [] of Inl f \<Rightarrow> Inl f
             | Inr args \<Rightarrow> Inr (VLiteral v args))
          else Inr (VLiteral v [])))
      | _ \<Rightarrow> Inl (Error UnmarshalTypeError))"
| "Literal_args_loop [] i args = Inr args"
| "Literal_args_loop (raw # raws) i args =
     (case unmarshalValue raw of
        Inl (Error err) \<Rightarrow> Inl (Error (ErrorfAt ''failed to unmarshal arg at index'' i err))
      | Inl (Panic p) \<Rightarrow> Inl (Panic p)
      | Inr arg \<Rightarrow> Literal_args_loop raws (i + 1) (args @ [arg]))"

| "Field_UnmarshalJSON data =
     (case data of
        JNull \<Rightarrow> Inl (Panic NilPointerDereference)
      | JObj kvs \<Rightarrow>
     (case string_field [] (members ''name'' kvs) of None \<Rightarrow> Inl (Error UnmarshalTypeError)
      | Some name \<Rightarrow>
     (case string_field [] (members ''tableAlias'' kvs) of None \<Rightarrow> Inl (Error UnmarshalTypeError)
      | Some tableAlias \<Rightarrow>
     (case string_field [] (members ''fieldAlias'' kvs) of None \<Rightarrow> Inl (Error UnmarshalTypeError)
      | Some fieldAlias \<Rightarrow>
     (case raw_field (members ''exp'' kvs) of
        None \<Rightarrow> Inr (Field name tableAlias fieldAlias VNil)
      | Some raw \<Rightarrow>
          (case unmarshalExpression raw of
             Inl (Error err) \<Rightarrow> Inl (Error (Errorf ''failed to unmarshal field expression'' err))
           | Inl (Panic p) \<Rightarrow> Inl (Panic p)
           | Inr e \<Rightarrow> Inr (Field name tableAlias fieldAlias e))))))
      | _ \<Rightarrow> Inl (Error UnmarshalTypeError))"

| "WhenThen_UnmarshalJSON data =
     (case data of
        JNull \<Rightarrow> Inl (Panic NilPointerDereference)
      | JObj kvs \<Rightarrow>
     (case (case raw_field (members ''when'' kvs) of None \<Rightarrow> Inr VNil
            | Some raw \<Rightarrow>
                (case unmarshalCondition raw of
                   Inr whn \<Rightarrow> Inr whn
                 | Inl (Panic p) \<Rightarrow> Inl (Panic p)
                 | Inl (Error err) \<Rightarrow>
                     (case unmarshalExpression raw of
                        Inr whn \<Rightarrow> Inr whn
                      | Inl (Panic p) \<Rightarrow> Inl (Panic p)
                      | Inl (Error err) \<Rightarrow>
                          (case Unmarshal_any raw of
                             Inl err \<Rightarrow> Inl (Error (Errorf ''failed to unmarshal when'' err))
                           | Inr simpleValue \<Rightarrow> Inr simpleValue)))) of
        Inl f \<Rightarrow> Inl f
      | Inr whn \<Rightarrow>
     (case raw_field (members ''then'' kvs) of
        None \<Rightarrow> Inr (whn, VNil)
      | Some raw \<Rightarrow>
          (case unmarshalValue raw of
             Inl (Error err) \<Rightarrow> Inl (Error (Errorf ''failed to unmarshal then value'' err))
           | Inl (Panic p) \<Rightarrow> Inl (Panic p)
           | Inr thn \<Rightarrow> Inr (whn, thn))))
      | _ \<Rightarrow> Inl (Error UnmarshalTypeError))"

| "Case_UnmarshalJSON data =
     (case data of
        JNull \<Rightarrow> Inl (Panic NilPointerDereference)
      | JObj kvs \<Rightarrow>
     (case Case_conditions_field (members ''conditions'' kvs) [] of Inl f \<Rightarrow> Inl f
      | Inr conditions \<Rightarrow>
          if \<not> list_all is_array_or_null (members ''conditions'' kvs)
          then Inl (Error UnmarshalTypeError)
          else
     (case raw_field (members ''else'' kvs) of
        None \<Rightarrow> Inr (VCase conditions VNil)
      | Some raw \<Rightarrow>
          (case unmarshalExpression raw of
             Inr elseVal \<Rightarrow> Inr (VCase conditions elseVal)
           | Inl (Panic p) \<Rightarrow> Inl (Panic p)
           | Inl (Error err) \<Rightarrow>
               (case Unmarshal_any raw of
                  Inl err \<Rightarrow> Inl (Error (Errorf ''failed to unmarshal else value'' err))
                | Inr simpleValue \<Rightarrow> Inr (VCase conditions simpleValue)))))
      | _ \<Rightarrow> Inl (Error UnmarshalTypeError))"
| "Case_conditions_field [] conditions = Inr conditions"
| "Case_conditions_field (m # ms) conditions =
     (case m of
        JArr raws \<Rightarrow>
          (case Case_conditions_loop raws [] of Inl f \<Rightarrow> Inl f
           | Inr wts \<Rightarrow> Case_conditions_field ms wts)
      | JNull \<Rightarrow> Case_conditions_field ms []
      | _ \<Rightarrow> Case_conditions_field ms conditions)"
| "Case_conditions_loop [] conditions = Inr conditions"
| "Case_conditions_loop (raw # raws) conditions =
     (case WhenThen_UnmarshalJSON raw of Inl f \<Rightarrow> Inl f
      | Inr wt \<Rightarrow> Case_conditions_loop raws (conditions @ [wt]))"

| "Coalesce_Unmarshal data =
     (case data of
        JNull \<Rightarrow> Inr (VCoalesce [] VNil)
      | JObj kvs \<Rightarrow>
     (case Coalesce_fields_field (members ''fields'' kvs) [] of Inl f \<Rightarrow> Inl f
      | Inr fields \<Rightarrow>
          if \<not> list_all is_array_or_null (members ''fields'' kvs) \<or>
             \<not> list_all numbers_in_range (members ''defaultValue'' kvs)
          then Inl (Error UnmarshalTypeError)
          else Inr (VCoalesce fields
                 (case raw_field (members ''defaultValue'' kvs) of None \<Rightarrow> VNil
                  | Some raw \<Rightarrow> json_to_any raw)))
      | _ \<Rightarrow> Inl (Error UnmarshalTypeError))"
| "Coalesce_fields_field [] fields = Inr fields"
| "Coalesce_fields_field (m # ms) fields =
     (case m of
        JArr raws \<Rightarrow>
          (case Coalesce_fields_loop raws [] of Inl f \<Rightarrow> Inl f
           | Inr fs \<Rightarrow> Coalesce_fields_field ms fs)
      | JNull \<Rightarrow> Coalesce_fields_field ms []
      | _ \<Rightarrow> Coalesce_fields_field ms fields)"
| "Coalesce_fields_loop [] fields = Inr fields"
| "Coalesce_fields_loop (raw # raws) fields =
     (case Field_UnmarshalJSON raw of Inl f \<Rightarrow> Inl f
      | Inr field \<Rightarrow> Coalesce_fields_loop raws (fields @ [field]))"
  by pat_completeness auto
termination
  by (relation "measure
    (case_sum
      (case_sum
        (case_sum
          (case_sum
            (\<lambda>data. 4 * size data + 3)
            (\<lambda>data. 4 * size data + 2))
          (case_sum
            (\<lambda>data. 4 * size data + 2)
            (\<lambda>data. 4 * size data + 1)))
        (case_sum
          (case_sum
            (\<lambda>data. 4 * size data + 1)
            (\<lambda>data. 4 * size data + 1))
          (case_sum
            (\<lambda>(raws, i, conditions). 4 * size_list size raws)
            (\<lambda>data. 4 * size data + 1))))
      (case_sum
        (case_sum
          (case_sum
            (\<lambda>(raws, i, args). 4 * size_list size raws)
            (\<lambda>data. 4 * size data + 1))
          (case_sum
            (\<lambda>data. 4 * size data + 1)
            (\<lambda>data. 4 * size data + 1)))
        (case_sum
          (case_sum
            (\<lambda>(ms, conditions). 4 * size_list size ms)
            (\<lambda>(raws, conditions). 4 * size_list size raws))
          (case_sum
            (\<lambda>data. 4 * size data + 1)
            (case_sum
              (\<lambda>(ms, fields). 4 * size_list size ms)
              (\<lambda>(raws, fields). 4 * size_list size raws))))))")
   (auto dest: size_raw_field size_raw_list_field simp: size_members_less)

declare unmarshalValue.simps [simp del] unmarshalCondition.simps [simp del]
  unmarshalExpression.simps [simp del] BoolOp_UnmarshalJSON.simps [simp del]
  RangeOp_UnmarshalJSON.simps [simp del] WhereGroup_UnmarshalJSON.simps [simp del]
  Literal_UnmarshalJSON.simps [simp del] Field_UnmarshalJSON.simps [simp del]
  WhenThen_UnmarshalJSON.simps [simp del] Case_UnmarshalJSON.simps [simp del]
  Coalesce_Unmarshal.simps [simp del]

section \<open>Encoding of a \<open>BoolOp\<close>\<close>

text \<open>
  \<open>BoolOp.MarshalJSON\<close> writes the members \<open>op\<close> (the name of the operator), \<open>fieldName\<close>,
  \<open>tableAlias\<close> (left out when empty) and \<open>value\<close>. \<open>marshal_scalar\<close> is \<open>json.Marshal\<close> of
  the value held by the \<open>any\<close> field, for nil, booleans, numbers and strings; the encoding of
  the other values is not modelled (\<open>None\<close>).
\<close>

fun marshal_scalar :: "val \<Rightarrow> json option" where
  "marshal_scalar VNil = Some JNull"
| "marshal_scalar (VBool b) = Some (JBool b)"
| "marshal_scalar (VNum n) = Some (JNum (Float64 n))"
| "marshal_scalar (VStr s) = Some (JStr s)"
| "marshal_scalar _ = None"

definition BoolOp_MarshalJSON ::
    "BooleanOperation \<Rightarrow> string \<Rightarrow> string \<Rightarrow> val \<Rightarrow> json option" where
  "BoolOp_MarshalJSON op fieldName tableAlias v =
     (case marshal_scalar v of
        None \<Rightarrow> None
      | Some jv \<Rightarrow>
          Some (JObj ([(''op'', JStr (boolOpToString op)), (''fieldName'', JStr fieldName)]
                      @ (if tableAlias \<noteq> [] then [(''tableAlias'', JStr tableAlias)] else [])
                      @ [(''value'', jv)])))"

section \<open>Notions used by the statements\<close>

text \<open>
  The builder methods that were called on a dataset, and the two among them that
  \<open>applyLimitOffset\<close> calls.
\<close>

fun clauses :: "dataset \<Rightarrow> clause list" where
  "clauses (Dataset k t cs) = cs"

fun limit_or_offset :: "clause \<Rightarrow> bool" where
  "limit_or_offset (ds_Limit n) = True"
| "limit_or_offset (ds_Offset n) = True"
| "limit_or_offset c = False"

text \<open>
  The type switch in the loop of \<open>WhereGroup.expression\<close>: the expression that one child
  gives, \<open>None\<close> (nil) for a child that is not a \<open>BoolOp\<close>, \<open>RangeOp\<close> or \<open>WhereGroup\<close> value.
\<close>

definition WhereGroup_child :: "val \<Rightarrow> panic + gexp option" where
  "WhereGroup_child cond =
     (case cond of
        VBoolOp op fieldName tableAlias v \<Rightarrow> BoolOp_expression op fieldName tableAlias v
      | VRangeOp op fieldName tableAlias start end \<Rightarrow>
          RangeOp_expression op fieldName tableAlias start end
      | VWhereGroup op conditions \<Rightarrow> WhereGroup_expression op conditions
      | _ \<Rightarrow> Inr None)"

text \<open>
  The inputs on which no panic is reached: no \<open>Field\<close> that has an inner expression but
  neither a name nor an alias (its \<open>expression\<close> passes a nil option on), and no nil pointer
  to a condition struct among the \<open>On\<close> entries of a relation.
\<close>

fun nil_condition_pointer :: "val \<Rightarrow> bool" where
  "nil_condition_pointer (VNilPtr PtrOther) = False"
| "nil_condition_pointer (VNilPtr t) = True"
| "nil_condition_pointer v = False"

primrec panic_free :: "val \<Rightarrow> bool"
  and panic_free_Field :: "Field \<Rightarrow> bool"
  and panic_free_Table :: "Table \<Rightarrow> bool"
  and panic_free_Relation :: "Relation \<Rightarrow> bool"
  and panic_free_SQLBuilder :: "SQLBuilder \<Rightarrow> bool"
where
  "panic_free VNil = True"
| "panic_free (VBool b) = True"
| "panic_free (VNum n) = True"
| "panic_free (VStr s) = True"
| "panic_free (VMap m) = True"
| "panic_free (VOpaque n) = True"
| "panic_free (VSlice xs) = True"
| "panic_free (VNilPtr t) = True"
| "panic_free (VPtr v) = panic_free v"
| "panic_free (VPtrToAny v) = panic_free v"
| "panic_free (VSQLBuilder qb) = panic_free_SQLBuilder qb"
| "panic_free (VField f) = panic_free_Field f"
| "panic_free (VBoolOp op fieldName tableAlias v) = panic_free v"
| "panic_free (VWhereGroup op conditions) = list_all (\<lambda>b. b) (map panic_free conditions)"
| "panic_free (VRangeOp op fieldName tableAlias start end) =
     (panic_free start \<and> panic_free end)"
| "panic_free (VLiteral v args) = list_all (\<lambda>b. b) (map panic_free args)"
| "panic_free (VCase conditions els) =
     (list_all (\<lambda>p. fst p \<and> snd p) (map (map_prod panic_free panic_free) conditions) \<and>
      panic_free els)"
| "panic_free (VCoalesce fields d) =
     (list_all (\<lambda>b. b) (map panic_free_Field fields) \<and> panic_free d)"
| "panic_free (VExpr n) = True"
| "panic_free_Field (Field name tableAlias fieldAlias e) =
     ((e = VNil \<or> name \<noteq> [] \<or> fieldAlias \<noteq> []) \<and> panic_free e)"
| "panic_free_Table (Table name alias relations) =
     list_all (\<lambda>b. b) (map panic_free_Relation relations)"
| "panic_free_Relation (Relation joinType on table) =
     (list_all (\<lambda>b. b) (map panic_free on) \<and>
      list_all (\<lambda>v. \<not> nil_condition_pointer v) on \<and> panic_free_Table table)"
| "panic_free_SQLBuilder (SQLBuilder dialect fields table wheres sorts groupBy l off) =
     (list_all (\<lambda>b. b) (map panic_free_Field fields) \<and> panic_free_Table table \<and>
      list_all (\<lambda>b. b) (map panic_free wheres))"

text \<open>
  The variant that a decoded value is, and the shapes of a node as the specification words
  them: \<open>has_key\<close> is the presence of a key (it does not depend on the order of the members),
  \<open>lookup\<close> is the value that the key has in the \<open>typeDetector\<close> map. The shape of a
  \<open>Case\<close> is the one that the code tests: \<open>conditions\<close> holds an array that decodes as a
  list of untyped maps (every entry an object or \<open>null\<close>, no number out of range) and
  whose first entry is an object with the key \<open>when\<close>.
\<close>

datatype kind = KCase | KCoalesce | KLiteral | KField | KRangeOp | KBoolOp | KWhereGroup | KOther

fun kind_of :: "val \<Rightarrow> kind" where
  "kind_of (VCase conditions els) = KCase"
| "kind_of (VCoalesce fields d) = KCoalesce"
| "kind_of (VLiteral v args) = KLiteral"
| "kind_of (VField f) = KField"
| "kind_of (VRangeOp op fieldName tableAlias start end) = KRangeOp"
| "kind_of (VBoolOp op fieldName tableAlias v) = KBoolOp"
| "kind_of (VWhereGroup op conditions) = KWhereGroup"
| "kind_of _ = KOther"

definition has_key :: "string \<Rightarrow> (string \<times> json) list \<Rightarrow> bool" where
  "has_key k kvs = (k \<in> fst ` set kvs)"


fun is_object_or_null :: "json \<Rightarrow> bool" where
  "is_object_or_null (JObj kvs) = True"
| "is_object_or_null JNull = True"
| "is_object_or_null _ = False"

definition lookup :: "string \<Rightarrow> (string \<times> json) list \<Rightarrow> json option" where
  "lookup k kvs = map_of (rev kvs) k"

definition case_shape :: "(string \<times> json) list \<Rightarrow> bool" where
  "case_shape kvs =
     (case lookup ''conditions'' kvs of
        Some (JArr (JObj first # rest)) \<Rightarrow>
          has_key ''when'' first \<and>
          list_all (\<lambda>x. is_object_or_null x \<and> numbers_in_range x) (JObj first # rest)
      | _ \<Rightarrow> False)"

definition expression_shape :: "(string \<times> json) list \<Rightarrow> kind option" where
  "expression_shape kvs =
     (if case_shape kvs then Some KCase
      else if has_key ''fields'' kvs then Some KCoalesce
      else if has_key ''value'' kvs then Some KLiteral
      else if has_key ''name'' kvs then Some KField
      else if has_key ''op'' kvs \<and> has_key ''fieldName'' kvs then
        (if has_key ''start'' kvs then Some KRangeOp else Some KBoolOp)
      else None)"

text \<open>
  A member that holds a value of any kind (\<open>value\<close>, \<open>start\<close>, \<open>end\<close>, \<open>else\<close>): it is decoded
  by \<open>unmarshalValue\<close>, and the field stays nil when the node has no such member.
\<close>

definition value_of_member :: "string \<Rightarrow> (string \<times> json) list \<Rightarrow> failure + val" where
  "value_of_member name kvs =
     (case raw_field (members name kvs) of None \<Rightarrow> Inr VNil | Some raw \<Rightarrow> unmarshalValue raw)"

text \<open>
  The JSON values in which no array holds \<open>null\<close> as an entry. On these no decoder
  panics: the only panic of the decoder is the use of the nil \<open>aux\<close> that \<open>null\<close> leaves,
  and the sniffers hand \<open>null\<close> to no \<open>UnmarshalJSON\<close>; \<open>encoding/json\<close> does, for a \<open>null\<close>
  entry of an array of structs.
\<close>

primrec no_null_entry :: "json \<Rightarrow> bool" where
  "no_null_entry JNull = True"
| "no_null_entry (JBool b) = True"
| "no_null_entry (JNum n) = True"
| "no_null_entry (JStr s) = True"
| "no_null_entry (JArr xs) = (JNull \<notin> set xs \<and> list_all (\<lambda>b. b) (map no_null_entry xs))"
| "no_null_entry (JObj kvs) = list_all snd (map (map_prod id no_null_entry) kvs)"

definition panics :: "failure + 'a \<Rightarrow> bool" where
  "panics r = (\<exists>p. r = Inl (Panic p))"

definition decoders_safe :: "json \<Rightarrow> bool" where
  "decoders_safe j =
     (\<not> panics (BoolOp_UnmarshalJSON j) \<and> \<not> panics (RangeOp_UnmarshalJSON j) \<and>
      \<not> panics (WhereGroup_UnmarshalJSON j) \<and> \<not> panics (Literal_UnmarshalJSON j) \<and>
      \<not> panics (Field_UnmarshalJSON j) \<and> \<not> panics (WhenThen_UnmarshalJSON j) \<and>
      \<not> panics (Case_UnmarshalJSON j))"

definition sniffers_safe :: "json \<Rightarrow> bool" where
  "sniffers_safe j =
     (\<not> panics (unmarshalValue j) \<and> \<not> panics (unmarshalCondition j) \<and>
      \<not> panics (unmarshalExpression j) \<and> \<not> panics (Coalesce_Unmarshal j))"

text \<open>
  The values that \<open>handleAny\<close> meets after the pointer step and that are nil or a pointer
  again, and the values that match none of its rules.
\<close>

fun is_nil_or_pointer :: "val \<Rightarrow> bool" where
  "is_nil_or_pointer VNil = True"
| "is_nil_or_pointer (VNilPtr t) = True"
| "is_nil_or_pointer (VPtr v) = True"
| "is_nil_or_pointer (VPtrToAny v) = True"
| "is_nil_or_pointer v = False"

fun plain :: "val \<Rightarrow> bool" where
  "plain (VBool b) = True"
| "plain (VNum n) = True"
| "plain (VStr s) = True"
| "plain (VMap m) = True"
| "plain (VOpaque n) = True"
| "plain v = False"

text \<open>
  An expression without the \<open>goqu.And\<close> and \<open>goqu.Or\<close> lists of one member that are wrapped
  around it.
\<close>

fun unwrap :: "gexp \<Rightarrow> gexp" where
  "unwrap (goqu_And [x]) = unwrap x"
| "unwrap (goqu_Or [x]) = unwrap x"
| "unwrap e = e"

section \<open>The mutation guard\<close>

text \<open>
  C3. For every builder whose \<open>Wheres\<close> list is empty, \<open>Edit\<close> and \<open>Delete\<close> both return the
  error \<open>ErrMissingWhereCondition\<close> together with the empty query string and nil arguments.
  The renderer \<open>toSQL\<close> is arbitrary and does not occur in the result: no query is emitted.
\<close>

theorem mutation_guard:
  "Wheres qb = [] \<Longrightarrow>
     Edit toSQL qb entry = Inr ([], None, Some ErrMissingWhereCondition) \<and>
     Delete toSQL qb = Inr ([], None, Some ErrMissingWhereCondition)"
  by (simp add: Edit_def Delete_def)

theorem mutation_guard_witness:
  "Wheres (New ''mysql'' ''users'' ''u'') = [] \<and>
   Edit (\<lambda>ds. (''UPDATE'', Some [], None)) (New ''mysql'' ''users'' ''u'')
     [(''username'', VStr ''jane_doe'')] = Inr ([], None, Some ErrMissingWhereCondition) \<and>
   Delete (\<lambda>ds. (''DELETE'', Some [], None)) (New ''mysql'' ''users'' ''u'')
     = Inr ([], None, Some ErrMissingWhereCondition)"
proof -
  have h: "Wheres (New ''mysql'' ''users'' ''u'') = []"
    by (simp add: New_def)
  show ?thesis
    using h mutation_guard [OF h, of "\<lambda>ds. (''UPDATE'', Some [], None)"
        "[(''username'', VStr ''jane_doe'')]"]
      mutation_guard [OF h, of "\<lambda>ds. (''DELETE'', Some [], None)"]
    by simp
qed

section \<open>The priority order of the shape sniffers\<close>

lemma has_key_typeDetector:
  "(map_of (rev kvs) k = None) = (\<not> has_key k kvs)"
  "(\<exists>y. map_of (rev kvs) k = Some y) = has_key k kvs"
proof -
  show 1: "(map_of (rev kvs) k = None) = (\<not> has_key k kvs)"
    by (simp add: has_key_def map_of_eq_None_iff)
  have "(\<exists>y. map_of (rev kvs) k = Some y) = (map_of (rev kvs) k \<noteq> None)"
    by auto
  then show "(\<exists>y. map_of (rev kvs) k = Some y) = has_key k kvs"
    using 1 by simp
qed

lemma kind_BoolOp: "BoolOp_UnmarshalJSON data = Inr r \<Longrightarrow> kind_of r = KBoolOp"
  by (auto simp: BoolOp_UnmarshalJSON.simps split: option.splits sum.splits json.splits failure.splits)

lemma kind_RangeOp: "RangeOp_UnmarshalJSON data = Inr r \<Longrightarrow> kind_of r = KRangeOp"
  by (auto simp: RangeOp_UnmarshalJSON.simps split: option.splits sum.splits json.splits failure.splits)


lemma kind_Literal: "Literal_UnmarshalJSON data = Inr r \<Longrightarrow> kind_of r = KLiteral"
  by (auto simp: Literal_UnmarshalJSON.simps split: option.splits sum.splits if_splits json.splits)

lemma kind_Case: "Case_UnmarshalJSON data = Inr r \<Longrightarrow> kind_of r = KCase"
  by (auto simp: Case_UnmarshalJSON.simps split: option.splits sum.splits if_splits json.splits failure.splits)

lemma kind_Coalesce: "Coalesce_Unmarshal data = Inr r \<Longrightarrow> kind_of r = KCoalesce"
  by (auto simp: Coalesce_Unmarshal.simps split: option.splits sum.splits if_splits json.splits)

lemma testCondition_iff:
  "(\<exists>y. testCondition x = Some y) = (is_object_or_null x \<and> numbers_in_range x)"
  by (cases x) simp_all

lemma testCondition_None:
  "(testCondition x = None) = (\<not> (is_object_or_null x \<and> numbers_in_range x))"
  by (cases x) simp_all

lemma hasCaseShape_case_shape: "hasCaseShape (map_of (rev kvs)) = case_shape kvs"
proof (cases "map_of (rev kvs) ''conditions''")
  case None
  then show ?thesis by (simp add: hasCaseShape_def case_shape_def lookup_def)
next
  case (Some c)
  show ?thesis
  proof (cases c)
    case (JArr xs)
    show ?thesis
    proof (cases xs)
      case Nil
      with Some JArr show ?thesis by (simp add: hasCaseShape_def case_shape_def lookup_def)
    next
      case (Cons first rest)
      show ?thesis
      proof (cases first)
        case (JObj ms)
        with Some JArr Cons show ?thesis
          by (auto simp: hasCaseShape_def case_shape_def lookup_def testCondition_None
              has_key_typeDetector list_all_iff)
      qed (use Some JArr Cons in \<open>auto simp: hasCaseShape_def case_shape_def lookup_def
              testCondition_None\<close>)
    qed
  qed (use Some in \<open>auto simp: hasCaseShape_def case_shape_def lookup_def\<close>)
qed

lemma unmarshalCondition_JObj:
  "unmarshalCondition (JObj kvs) =
     (if has_key ''op'' kvs then
        (if has_key ''fieldName'' kvs then
           (if has_key ''start'' kvs then RangeOp_UnmarshalJSON (JObj kvs)
            else BoolOp_UnmarshalJSON (JObj kvs))
         else if has_key ''conditions'' kvs then WhereGroup_UnmarshalJSON (JObj kvs)
         else Inl (Error UnknownConditionType))
      else Inl (Error UnknownConditionType))"
  by (simp add: unmarshalCondition.simps has_key_typeDetector)

lemma unmarshalExpression_JObj:
  "unmarshalExpression (JObj kvs) =
     (if case_shape kvs then Case_UnmarshalJSON (JObj kvs)
      else if has_key ''fields'' kvs then Coalesce_Unmarshal (JObj kvs)
      else if has_key ''value'' kvs then Literal_UnmarshalJSON (JObj kvs)
      else if has_key ''name'' kvs then
        (case Field_UnmarshalJSON (JObj kvs) of Inl f \<Rightarrow> Inl f | Inr field \<Rightarrow> Inr (VField field))
      else if has_key ''op'' kvs \<and> has_key ''fieldName'' kvs then
        (if has_key ''start'' kvs then RangeOp_UnmarshalJSON (JObj kvs)
         else BoolOp_UnmarshalJSON (JObj kvs))
      else Inl (Error UnknownExpressionType))"
  by (simp add: unmarshalExpression.simps has_key_typeDetector hasCaseShape_case_shape)

lemma sniffers_not_object:
  "unmarshalCondition JNull = Inl (Error UnknownConditionType)"
  "unmarshalExpression JNull = Inl (Error UnknownExpressionType)"
  "\<not> is_object_or_null j \<Longrightarrow> unmarshalCondition j = Inl (Error UnmarshalTypeError)"
  "\<not> is_object_or_null j \<Longrightarrow> unmarshalExpression j = Inl (Error UnmarshalTypeError)"
  by (cases j; simp add: unmarshalCondition.simps unmarshalExpression.simps hasCaseShape_def)+

lemma members_in: "m \<in> set (members name kvs) \<Longrightarrow> \<exists>k. (k, m) \<in> set kvs"
  by (auto simp: members_def)

lemma size_in_members:
  "(k, v) \<in> set kvs \<Longrightarrow> size v < size_list (size_prod (\<lambda>x. 0) size) kvs"
  by (induction kvs) auto

lemma members_size: "m \<in> set (members name kvs) \<Longrightarrow> size m < size (JObj kvs)"
  using members_in size_in_members by fastforce

lemma members_no_null:
  "no_null_entry (JObj kvs) \<Longrightarrow> m \<in> set (members name kvs) \<Longrightarrow> no_null_entry m"
  by (auto simp: list_all_iff dest!: members_in)

lemma members_in_range:
  "numbers_in_range (JObj kvs) \<Longrightarrow> m \<in> set (members name kvs) \<Longrightarrow> numbers_in_range m"
  by (auto simp: list_all_iff dest!: members_in)

lemma raw_field_in: "raw_field ms = Some raw \<Longrightarrow> raw \<in> set ms"
  by (auto simp: raw_field_def split: if_splits)

lemma raw_list_field_in:
  "raw_list_field acc ms = Some raws \<Longrightarrow> raws = acc \<or> raws = [] \<or> JArr raws \<in> set ms"
proof (induction ms arbitrary: acc)
  case Nil
  then show ?case by simp
next
  case (Cons m ms)
  show ?case
  proof (cases m)
    case JNull
    with Cons.prems have "raw_list_field [] ms = Some raws" by simp
    from Cons.IH [OF this] show ?thesis by auto
  next
    case (JArr xs)
    with Cons.prems have "raw_list_field xs ms = Some raws" by simp
    from Cons.IH [OF this] show ?thesis using JArr by auto
  qed (use Cons.prems in simp_all)
qed

lemma entry_size: "raw \<in> set raws \<Longrightarrow> size raw < size (JArr raws)"
  by (induction raws) auto

lemma entry_no_null:
  "no_null_entry (JArr raws) \<Longrightarrow> raw \<in> set raws \<Longrightarrow> no_null_entry raw \<and> raw \<noteq> JNull"
  by (auto simp: list_all_iff)

lemma entry_in_range:
  "numbers_in_range (JArr raws) \<Longrightarrow> raw \<in> set raws \<Longrightarrow> numbers_in_range raw"
  by (auto simp: list_all_iff)

lemma conditions_loop_no_panic:
  "(\<And>raw. raw \<in> set raws \<Longrightarrow> \<not> panics (unmarshalCondition raw)) \<Longrightarrow>
   \<not> panics (WhereGroup_conditions_loop raws i acc)"
proof (induction raws arbitrary: i acc)
  case Nil
  show ?case by (simp add: panics_def)
next
  case (Cons raw raws)
  have r: "\<not> panics (unmarshalCondition raw)"
    using Cons.prems by simp
  have rest: "\<not> panics (WhereGroup_conditions_loop raws i' acc')" for i' acc'
    using Cons.prems by (intro Cons.IH) simp
  show ?case
    using r rest by (auto simp: panics_def split: sum.splits failure.splits)
qed

lemma args_loop_no_panic:
  "(\<And>raw. raw \<in> set raws \<Longrightarrow> \<not> panics (unmarshalValue raw)) \<Longrightarrow>
   \<not> panics (Literal_args_loop raws i acc)"
proof (induction raws arbitrary: i acc)
  case Nil
  show ?case by (simp add: panics_def)
next
  case (Cons raw raws)
  have r: "\<not> panics (unmarshalValue raw)"
    using Cons.prems by simp
  have rest: "\<not> panics (Literal_args_loop raws i' acc')" for i' acc'
    using Cons.prems by (intro Cons.IH) simp
  show ?case
    using r rest by (auto simp: panics_def split: sum.splits failure.splits)
qed

lemma Case_loop_no_panic:
  "(\<And>raw. raw \<in> set raws \<Longrightarrow> \<not> panics (WhenThen_UnmarshalJSON raw)) \<Longrightarrow>
   \<not> panics (Case_conditions_loop raws acc)"
proof (induction raws arbitrary: acc)
  case Nil
  show ?case by (simp add: panics_def)
next
  case (Cons raw raws)
  have r: "\<not> panics (WhenThen_UnmarshalJSON raw)"
    using Cons.prems by simp
  have rest: "\<not> panics (Case_conditions_loop raws acc')" for acc'
    using Cons.prems by (intro Cons.IH) simp
  show ?case
    using r rest by (auto simp: panics_def split: sum.splits failure.splits)
qed

lemma Case_field_no_panic:
  "(\<And>raws raw. JArr raws \<in> set ms \<Longrightarrow> raw \<in> set raws \<Longrightarrow>
      \<not> panics (WhenThen_UnmarshalJSON raw)) \<Longrightarrow>
   \<not> panics (Case_conditions_field ms acc)"
proof (induction ms arbitrary: acc)
  case Nil
  show ?case by (simp add: panics_def)
next
  case (Cons m ms)
  have rest: "\<not> panics (Case_conditions_field ms acc')" for acc'
    using Cons.prems by (intro Cons.IH) auto
  show ?case
  proof (cases m)
    case (JArr raws)
    have "\<not> panics (Case_conditions_loop raws [])"
      using Cons.prems JArr by (intro Case_loop_no_panic) auto
    then show ?thesis
      using JArr rest by (auto simp: panics_def split: sum.splits failure.splits)
  qed (use rest in \<open>simp_all add: panics_def\<close>)
qed

lemma fields_loop_no_panic:
  "(\<And>raw. raw \<in> set raws \<Longrightarrow> \<not> panics (Field_UnmarshalJSON raw)) \<Longrightarrow>
   \<not> panics (Coalesce_fields_loop raws acc)"
proof (induction raws arbitrary: acc)
  case Nil
  show ?case by (simp add: panics_def)
next
  case (Cons raw raws)
  have r: "\<not> panics (Field_UnmarshalJSON raw)"
    using Cons.prems by simp
  have rest: "\<not> panics (Coalesce_fields_loop raws acc')" for acc'
    using Cons.prems by (intro Cons.IH) simp
  show ?case
    using r rest by (auto simp: panics_def split: sum.splits failure.splits)
qed

lemma fields_field_no_panic:
  "(\<And>raws raw. JArr raws \<in> set ms \<Longrightarrow> raw \<in> set raws \<Longrightarrow>
      \<not> panics (Field_UnmarshalJSON raw)) \<Longrightarrow>
   \<not> panics (Coalesce_fields_field ms acc)"
proof (induction ms arbitrary: acc)
  case Nil
  show ?case by (simp add: panics_def)
next
  case (Cons m ms)
  have rest: "\<not> panics (Coalesce_fields_field ms acc')" for acc'
    using Cons.prems by (intro Cons.IH) auto
  show ?case
  proof (cases m)
    case (JArr raws)
    have "\<not> panics (Coalesce_fields_loop raws [])"
      using Cons.prems JArr by (intro fields_loop_no_panic) auto
    then show ?thesis
      using JArr rest by (auto simp: panics_def split: sum.splits failure.splits)
  qed (use rest in \<open>simp_all add: panics_def\<close>)
qed

lemma object_safe:
  assumes IH: "\<And>y. size y < size (JObj kvs) \<Longrightarrow> no_null_entry y \<Longrightarrow>
      sniffers_safe y \<and> (y \<noteq> JNull \<longrightarrow> decoders_safe y)"
    and clean: "no_null_entry (JObj kvs)"
  shows "sniffers_safe (JObj kvs) \<and> decoders_safe (JObj kvs)"
proof -
  have raw: "sniffers_safe raw" if "raw_field (members name kvs) = Some raw" for name raw
  proof -
    from that have "raw \<in> set (members name kvs)" by (rule raw_field_in)
    then have "size raw < size (JObj kvs)" "no_null_entry raw"
      using members_size members_no_null [OF clean] by blast+
    then show ?thesis using IH by blast
  qed
  have arr: "sniffers_safe raw \<and> decoders_safe raw"
    if "JArr raws \<in> set (members name kvs)" "raw \<in> set raws" for name raws raw
  proof -
    from that(1) have 1: "size (JArr raws) < size (JObj kvs)" "no_null_entry (JArr raws)"
      using members_size members_no_null [OF clean] by blast+
    from entry_size [OF that(2)] 1(1) have "size raw < size (JObj kvs)" by simp
    moreover from entry_no_null [OF 1(2) that(2)] have "no_null_entry raw" "raw \<noteq> JNull"
      by simp_all
    ultimately show ?thesis using IH by blast
  qed
  have entries: "sniffers_safe raw"
    if "raw_list_field [] (members name kvs) = Some raws" "raw \<in> set raws" for name raws raw
  proof -
    from raw_list_field_in [OF that(1)] that(2) have "JArr raws \<in> set (members name kvs)"
      by auto
    from arr [OF this that(2)] show ?thesis by simp
  qed
  have BoolOp: "\<not> panics (BoolOp_UnmarshalJSON (JObj kvs))"
    using raw [of "''value''"]
    by (auto simp: BoolOp_UnmarshalJSON.simps sniffers_safe_def panics_def
        split: option.splits sum.splits failure.splits)
  have RangeOp: "\<not> panics (RangeOp_UnmarshalJSON (JObj kvs))"
    using raw [of "''start''"] raw [of "''end''"]
    by (auto simp: RangeOp_UnmarshalJSON.simps sniffers_safe_def panics_def
        split: option.splits sum.splits failure.splits)
  have WhereGroup: "\<not> panics (WhereGroup_UnmarshalJSON (JObj kvs))"
  proof -
    have "\<not> panics (WhereGroup_conditions_loop raws 0 [])"
      if "raw_list_field [] (members ''conditions'' kvs) = Some raws" for raws
      using entries [OF that] by (intro conditions_loop_no_panic) (simp add: sniffers_safe_def)
    then show ?thesis
      by (auto simp: WhereGroup_UnmarshalJSON.simps panics_def
          split: option.splits sum.splits)
  qed
  have Literal: "\<not> panics (Literal_UnmarshalJSON (JObj kvs))"
  proof -
    have "\<not> panics (Literal_args_loop raws 0 [])"
      if "raw_list_field [] (members ''args'' kvs) = Some raws" for raws
      using entries [OF that] by (intro args_loop_no_panic) (simp add: sniffers_safe_def)
    then show ?thesis
      by (auto simp: Literal_UnmarshalJSON.simps panics_def
          split: option.splits sum.splits)
  qed
  have Field: "\<not> panics (Field_UnmarshalJSON (JObj kvs))"
    using raw [of "''exp''"]
    by (auto simp: Field_UnmarshalJSON.simps sniffers_safe_def panics_def
        split: option.splits sum.splits failure.splits)
  have WhenThen: "\<not> panics (WhenThen_UnmarshalJSON (JObj kvs))"
    using raw [of "''when''"] raw [of "''then''"]
    by (auto simp: WhenThen_UnmarshalJSON.simps sniffers_safe_def panics_def
        split: option.splits sum.splits failure.splits)
  have Case: "\<not> panics (Case_UnmarshalJSON (JObj kvs))"
  proof -
    have "\<not> panics (Case_conditions_field (members ''conditions'' kvs) [])"
      using arr by (intro Case_field_no_panic) (simp add: decoders_safe_def)
    then show ?thesis
      using raw [of "''else''"]
      by (auto simp: Case_UnmarshalJSON.simps sniffers_safe_def panics_def
          split: option.splits sum.splits failure.splits)
  qed
  have Coalesce: "\<not> panics (Coalesce_Unmarshal (JObj kvs))"
  proof -
    have "\<not> panics (Coalesce_fields_field (members ''fields'' kvs) [])"
      using arr by (intro fields_field_no_panic) (simp add: decoders_safe_def)
    then show ?thesis
      by (auto simp: Coalesce_Unmarshal.simps panics_def
          split: option.splits sum.splits failure.splits)
  qed
  have uc: "\<not> panics (unmarshalCondition (JObj kvs))"
    using BoolOp RangeOp WhereGroup by (simp add: unmarshalCondition_JObj panics_def)
  have ue: "\<not> panics (unmarshalExpression (JObj kvs))"
    using BoolOp RangeOp Literal Field Case Coalesce
    by (auto simp: unmarshalExpression_JObj panics_def split: sum.splits)
  have uv: "\<not> panics (unmarshalValue (JObj kvs))"
    using ue by (auto simp: unmarshalValue.simps panics_def split: sum.splits failure.splits)
  show ?thesis
    using BoolOp RangeOp WhereGroup Literal Field WhenThen Case Coalesce uc ue uv
    by (simp add: sniffers_safe_def decoders_safe_def)
qed

lemma not_object_safe:
  "\<not> (\<exists>kvs. j = JObj kvs) \<Longrightarrow> sniffers_safe j \<and> (j \<noteq> JNull \<longrightarrow> decoders_safe j)"
  by (cases j)
    (simp_all add: sniffers_safe_def decoders_safe_def panics_def unmarshalValue.simps
      unmarshalCondition.simps unmarshalExpression.simps hasCaseShape_def
      BoolOp_UnmarshalJSON.simps RangeOp_UnmarshalJSON.simps WhereGroup_UnmarshalJSON.simps
      Literal_UnmarshalJSON.simps Field_UnmarshalJSON.simps WhenThen_UnmarshalJSON.simps
      Case_UnmarshalJSON.simps Coalesce_Unmarshal.simps split: sum.splits)

lemma no_null_entry_safe:
  "no_null_entry j \<Longrightarrow> sniffers_safe j \<and> (j \<noteq> JNull \<longrightarrow> decoders_safe j)"
proof (induction j rule: measure_induct_rule [of size])
  case (less j)
  show ?case
  proof (cases "\<exists>kvs. j = JObj kvs")
    case True
    then obtain kvs where j: "j = JObj kvs" by blast
    have "sniffers_safe (JObj kvs) \<and> decoders_safe (JObj kvs)"
      using less j by (intro object_safe) auto
    then show ?thesis using j by simp
  next
    case False
    then show ?thesis by (rule not_object_safe)
  qed
qed

lemma unmarshalValue_returns:
  "no_null_entry j \<Longrightarrow> numbers_in_range j \<Longrightarrow> \<exists>v. unmarshalValue j = Inr v"
proof -
  assume "no_null_entry j" and r: "numbers_in_range j"
  then have "\<not> panics (unmarshalExpression j)"
    using no_null_entry_safe by (simp add: sniffers_safe_def)
  then show ?thesis
    using r by (auto simp: unmarshalValue.simps Unmarshal_any_def panics_def
        split: sum.splits failure.splits)
qed

lemma value_of_member_cases:
  "value_of_member name kvs = Inr v \<longleftrightarrow>
     (raw_field (members name kvs) = None \<and> v = VNil) \<or>
     (\<exists>raw. raw_field (members name kvs) = Some raw \<and> unmarshalValue raw = Inr v)"
  by (auto simp: value_of_member_def split: option.splits)

lemma BoolOp_returns_value:
  "string_field [] (members ''op'' kvs) = Some op \<Longrightarrow>
   string_field [] (members ''fieldName'' kvs) = Some fieldName \<Longrightarrow>
   string_field [] (members ''tableAlias'' kvs) = Some tableAlias \<Longrightarrow>
   value_of_member ''value'' kvs = Inr v \<Longrightarrow>
   BoolOp_UnmarshalJSON (JObj kvs) = Inr (VBoolOp (stringToBoolOp op) fieldName tableAlias v)"
  by (auto simp: BoolOp_UnmarshalJSON.simps value_of_member_def split: option.splits)

lemma RangeOp_returns_value:
  "string_field [] (members ''op'' kvs) = Some op \<Longrightarrow>
   string_field [] (members ''fieldName'' kvs) = Some fieldName \<Longrightarrow>
   string_field [] (members ''tableAlias'' kvs) = Some tableAlias \<Longrightarrow>
   value_of_member ''start'' kvs = Inr start \<Longrightarrow>
   value_of_member ''end'' kvs = Inr end \<Longrightarrow>
   RangeOp_UnmarshalJSON (JObj kvs) =
     Inr (VRangeOp (stringToRangeOp op) fieldName tableAlias start end)"
  by (auto simp: RangeOp_UnmarshalJSON.simps value_of_member_def split: option.splits)




lemma args_loop_all2:
  "Literal_args_loop raws i acc = Inr args \<Longrightarrow>
   \<exists>as. args = acc @ as \<and> list_all2 (\<lambda>raw a. unmarshalValue raw = Inr a) raws as"
proof (induction raws arbitrary: i acc)
  case Nil
  then show ?case by simp
next
  case (Cons raw raws)
  then obtain a where a: "unmarshalValue raw = Inr a"
    and rest: "Literal_args_loop raws (i + 1) (acc @ [a]) = Inr args"
    by (auto split: sum.splits failure.splits)
  from Cons.IH [OF rest] obtain as where "args = (acc @ [a]) @ as"
    and "list_all2 (\<lambda>raw a. unmarshalValue raw = Inr a) raws as"
    by blast
  then show ?case using a by (intro exI [of _ "a # as"]) simp
qed

lemma args_loop_returns:
  "list_all2 (\<lambda>raw a. unmarshalValue raw = Inr a) raws as \<Longrightarrow>
   Literal_args_loop raws i acc = Inr (acc @ as)"
  by (induction raws as arbitrary: i acc rule: list_all2_induct) simp_all

lemma Case_loop_returns_value:
  "list_all2 (\<lambda>raw wt. WhenThen_UnmarshalJSON raw = Inr wt) raws wts \<Longrightarrow>
   Case_conditions_loop raws acc = Inr (acc @ wts)"
  by (induction raws wts arbitrary: acc rule: list_all2_induct) simp_all

lemma fields_loop_returns_value:
  "list_all2 (\<lambda>raw f. Field_UnmarshalJSON raw = Inr f) raws fs \<Longrightarrow>
   Coalesce_fields_loop raws acc = Inr (acc @ fs)"
  by (induction raws fs arbitrary: acc rule: list_all2_induct) simp_all



lemma Literal_returns_value:
  "string_field [] (members ''value'' kvs) = Some v \<Longrightarrow>
   raw_list_field [] (members ''args'' kvs) = Some raws \<Longrightarrow>
   list_all2 (\<lambda>raw a. unmarshalValue raw = Inr a) raws args \<Longrightarrow>
   Literal_UnmarshalJSON (JObj kvs) = Inr (VLiteral v args)"
  by (auto simp: Literal_UnmarshalJSON.simps args_loop_returns)

lemma Literal_args:
  "Literal_UnmarshalJSON (JObj kvs) = Inr (VLiteral v args) \<Longrightarrow>
   \<exists>raws. raw_list_field [] (members ''args'' kvs) = Some raws \<and>
          list_all2 (\<lambda>raw a. unmarshalValue raw = Inr a) raws args"
  by (auto simp: Literal_UnmarshalJSON.simps split: option.splits sum.splits if_splits
      dest: args_loop_all2)

lemma Field_returns_value:
  "string_field [] (members ''name'' kvs) = Some name \<Longrightarrow>
   string_field [] (members ''tableAlias'' kvs) = Some tableAlias \<Longrightarrow>
   string_field [] (members ''fieldAlias'' kvs) = Some fieldAlias \<Longrightarrow>
   (raw_field (members ''exp'' kvs) = None \<longrightarrow>
      Field_UnmarshalJSON (JObj kvs) = Inr (Field name tableAlias fieldAlias VNil)) \<and>
   (\<forall>raw e. raw_field (members ''exp'' kvs) = Some raw \<and> unmarshalExpression raw = Inr e \<longrightarrow>
      Field_UnmarshalJSON (JObj kvs) = Inr (Field name tableAlias fieldAlias e))"
  by (auto simp: Field_UnmarshalJSON.simps)

lemma else_is_unmarshalValue:
  "(case unmarshalExpression raw of
      Inr elseVal \<Rightarrow> Inr (VCase conditions elseVal)
    | Inl (Panic p) \<Rightarrow> Inl (Panic p)
    | Inl (Error err) \<Rightarrow>
        (case Unmarshal_any raw of
           Inl err \<Rightarrow> Inl (Error (Errorf ''failed to unmarshal else value'' err))
         | Inr simpleValue \<Rightarrow> Inr (VCase conditions simpleValue))) = Inr r
   \<longleftrightarrow> (\<exists>els. unmarshalValue raw = Inr els \<and> r = VCase conditions els)"
  by (auto simp: unmarshalValue.simps split: sum.splits failure.splits)

lemma Case_returns_value:
  "members ''conditions'' kvs = [JArr raws] \<Longrightarrow>
   list_all2 (\<lambda>raw wt. WhenThen_UnmarshalJSON raw = Inr wt) raws wts \<Longrightarrow>
   value_of_member ''else'' kvs = Inr els \<Longrightarrow>
   Case_UnmarshalJSON (JObj kvs) = Inr (VCase wts els)"
proof -
  assume m: "members ''conditions'' kvs = [JArr raws]"
    and w: "list_all2 (\<lambda>raw wt. WhenThen_UnmarshalJSON raw = Inr wt) raws wts"
    and e: "value_of_member ''else'' kvs = Inr els"
  have f: "Case_conditions_field (members ''conditions'' kvs) [] = Inr wts"
    using m Case_loop_returns_value [OF w, of "[]"] by simp
  show ?thesis
  proof (cases "raw_field (members ''else'' kvs)")
    case None
    with e have "els = VNil" by (simp add: value_of_member_def)
    with None f m show ?thesis by (simp add: Case_UnmarshalJSON.simps)
  next
    case (Some raw)
    with e have "unmarshalValue raw = Inr els" by (simp add: value_of_member_def)
    then have "(case unmarshalExpression raw of
      Inr elseVal \<Rightarrow> Inr (VCase wts elseVal)
    | Inl (Panic p) \<Rightarrow> Inl (Panic p)
    | Inl (Error err) \<Rightarrow>
        (case Unmarshal_any raw of
           Inl err \<Rightarrow> Inl (Error (Errorf ''failed to unmarshal else value'' err))
         | Inr simpleValue \<Rightarrow> Inr (VCase wts simpleValue))) = Inr (VCase wts els)"
      by (simp add: else_is_unmarshalValue)
    with Some f m show ?thesis by (simp add: Case_UnmarshalJSON.simps)
  qed
qed

lemma Coalesce_returns_value:
  "members ''fields'' kvs = [JArr raws] \<Longrightarrow>
   list_all2 (\<lambda>raw f. Field_UnmarshalJSON raw = Inr f) raws fs \<Longrightarrow>
   list_all numbers_in_range (members ''defaultValue'' kvs) \<Longrightarrow>
   Coalesce_Unmarshal (JObj kvs) =
     Inr (VCoalesce fs (case raw_field (members ''defaultValue'' kvs) of None \<Rightarrow> VNil
                        | Some raw \<Rightarrow> json_to_any raw))"
proof -
  assume m: "members ''fields'' kvs = [JArr raws]"
    and w: "list_all2 (\<lambda>raw f. Field_UnmarshalJSON raw = Inr f) raws fs"
    and d: "list_all numbers_in_range (members ''defaultValue'' kvs)"
  have f: "Coalesce_fields_field (members ''fields'' kvs) [] = Inr fs"
    using m fields_loop_returns_value [OF w, of "[]"] by simp
  show ?thesis
    using f m d by (simp add: Coalesce_Unmarshal.simps)
qed

lemma WhenThen_returns:
  assumes "no_null_entry (JObj ms)" "numbers_in_range (JObj ms)"
  shows "\<exists>wt. WhenThen_UnmarshalJSON (JObj ms) = Inr wt"
proof -
  have raw: "no_null_entry raw \<and> numbers_in_range raw"
    if "raw_field (members name ms) = Some raw" for name raw
    using raw_field_in [OF that] members_no_null [OF assms(1)] members_in_range [OF assms(2)]
    by blast
  have whn: "\<exists>w. (case unmarshalCondition raw of
                   Inr whn \<Rightarrow> Inr whn
                 | Inl (Panic p) \<Rightarrow> Inl (Panic p)
                 | Inl (Error err) \<Rightarrow>
                     (case unmarshalExpression raw of
                        Inr whn \<Rightarrow> Inr whn
                      | Inl (Panic p) \<Rightarrow> Inl (Panic p)
                      | Inl (Error err) \<Rightarrow>
                          (case Unmarshal_any raw of
                             Inl err \<Rightarrow> Inl (Error (Errorf ''failed to unmarshal when'' err))
                           | Inr simpleValue \<Rightarrow> Inr simpleValue))) = Inr w"
    if "raw_field (members ''when'' ms) = Some raw" for raw
  proof -
    from raw [OF that] have c: "no_null_entry raw" and r: "numbers_in_range raw" by simp_all
    from no_null_entry_safe [OF c] have "\<not> panics (unmarshalCondition raw)"
      "\<not> panics (unmarshalExpression raw)"
      by (simp_all add: sniffers_safe_def)
    then show ?thesis
      using r by (auto simp: panics_def Unmarshal_any_def split: sum.splits failure.splits)
  qed
  have thn: "\<exists>t. unmarshalValue raw = Inr t"
    if "raw_field (members ''then'' ms) = Some raw" for raw
    using raw [OF that] unmarshalValue_returns by blast
  show ?thesis
  proof (cases "raw_field (members ''when'' ms)")
    case None
    then show ?thesis
      using thn by (cases "raw_field (members ''then'' ms)")
        (auto simp: WhenThen_UnmarshalJSON.simps)
  next
    case (Some raw)
    from whn [OF Some] obtain w where w: "(case unmarshalCondition raw of
                   Inr whn \<Rightarrow> Inr whn
                 | Inl (Panic p) \<Rightarrow> Inl (Panic p)
                 | Inl (Error err) \<Rightarrow>
                     (case unmarshalExpression raw of
                        Inr whn \<Rightarrow> Inr whn
                      | Inl (Panic p) \<Rightarrow> Inl (Panic p)
                      | Inl (Error err) \<Rightarrow>
                          (case Unmarshal_any raw of
                             Inl err \<Rightarrow> Inl (Error (Errorf ''failed to unmarshal when'' err))
                           | Inr simpleValue \<Rightarrow> Inr simpleValue))) = Inr w"
      by blast
    show ?thesis
      using thn Some w by (cases "raw_field (members ''then'' ms)")
        (auto simp: WhenThen_UnmarshalJSON.simps)
  qed
qed

lemma clean_entries_WhenThen:
  assumes "no_null_entry (JArr raws)" "numbers_in_range (JArr raws)"
    and "list_all is_object_or_null raws"
  shows "\<exists>wts. list_all2 (\<lambda>raw wt. WhenThen_UnmarshalJSON raw = Inr wt) raws wts"
  using assms
proof (induction raws)
  case Nil
  show ?case by simp
next
  case (Cons raw raws)
  from Cons.prems have "\<exists>wts. list_all2 (\<lambda>raw wt. WhenThen_UnmarshalJSON raw = Inr wt) raws wts"
    by (intro Cons.IH) auto
  then obtain wts where wts: "list_all2 (\<lambda>raw wt. WhenThen_UnmarshalJSON raw = Inr wt) raws wts"
    by blast
  from Cons.prems obtain ms where "raw = JObj ms"
    by (cases raw) auto
  with Cons.prems have "\<exists>wt. WhenThen_UnmarshalJSON raw = Inr wt"
    by (intro WhenThen_returns [of ms, folded \<open>raw = JObj ms\<close>]) auto
  then obtain wt where "WhenThen_UnmarshalJSON raw = Inr wt" by blast
  with wts show ?case by (intro exI [of _ "wt # wts"]) simp
qed

lemma value_of_member_returns:
  "no_null_entry (JObj kvs) \<Longrightarrow> numbers_in_range (JObj kvs) \<Longrightarrow>
   \<exists>v. value_of_member name kvs = Inr v"
proof (cases "raw_field (members name kvs)")
  case None
  then show ?thesis by (simp add: value_of_member_def)
next
  case (Some raw)
  assume "no_null_entry (JObj kvs)" "numbers_in_range (JObj kvs)"
  with raw_field_in [OF Some] have "no_null_entry raw" "numbers_in_range raw"
    using members_no_null members_in_range by blast+
  then show ?thesis
    using Some unmarshalValue_returns by (simp add: value_of_member_def)
qed

lemma case_shape_entries:
  "case_shape kvs \<Longrightarrow> \<exists>raws. lookup ''conditions'' kvs = Some (JArr raws) \<and>
     list_all is_object_or_null raws"
proof -
  assume a: "case_shape kvs"
  then obtain c where c: "lookup ''conditions'' kvs = Some c"
    by (cases "lookup ''conditions'' kvs") (simp_all add: case_shape_def)
  with a obtain raws where r: "c = JArr raws"
    by (cases c) (simp_all add: case_shape_def)
  with a c obtain x rest where x: "raws = x # rest"
    by (cases raws) (simp_all add: case_shape_def)
  with a c r obtain first where "x = JObj first"
    by (cases x) (simp_all add: case_shape_def)
  with a c r x have "list_all is_object_or_null raws"
    by (simp add: case_shape_def list_all_iff)
  with c r show ?thesis by simp
qed

lemma lookup_in_members: "lookup name kvs = Some v \<Longrightarrow> v \<in> set (members name kvs)"
proof -
  assume "lookup name kvs = Some v"
  then have "(name, v) \<in> set (rev kvs)"
    unfolding lookup_def by (rule map_of_SomeD)
  then show ?thesis
    by (force simp: members_def)
qed

lemma clean_Case_returns:
  assumes shape: "case_shape kvs"
    and clean: "no_null_entry (JObj kvs)" "numbers_in_range (JObj kvs)"
    and one: "members ''conditions'' kvs = [JArr raws]"
  shows "\<exists>wts els. Case_UnmarshalJSON (JObj kvs) = Inr (VCase wts els)"
proof -
  from case_shape_entries [OF shape] obtain raws' where l: "lookup ''conditions'' kvs = Some (JArr raws')"
    and o: "list_all is_object_or_null raws'"
    by blast
  from lookup_in_members [OF l] one have "raws' = raws" by simp
  with o have o: "list_all is_object_or_null raws" by simp
  have "JArr raws \<in> set (members ''conditions'' kvs)" using one by simp
  then have "no_null_entry (JArr raws)" "numbers_in_range (JArr raws)"
    using clean members_no_null members_in_range by blast+
  from clean_entries_WhenThen [OF this o] obtain wts
    where wts: "list_all2 (\<lambda>raw wt. WhenThen_UnmarshalJSON raw = Inr wt) raws wts"
    by blast
  from value_of_member_returns [OF clean] obtain els
    where els: "value_of_member ''else'' kvs = Inr els"
    by blast
  from Case_returns_value [OF one wts els] show ?thesis by blast
qed


text \<open>
  A node is an object. What is not an object never reaches the shape tests: \<open>null\<close> decodes
  into the nil map, which has no key, and every other JSON value is rejected by
  \<open>encoding/json\<close> with its type error.
\<close>

lemma non_object_node:
  "unmarshalCondition JNull = Inl (Error UnknownConditionType) \<and>
   unmarshalExpression JNull = Inl (Error UnknownExpressionType) \<and>
   (\<not> is_object_or_null j \<longrightarrow>
      unmarshalCondition j = Inl (Error UnmarshalTypeError) \<and>
      unmarshalExpression j = Inl (Error UnmarshalTypeError))"
  by (simp add: sniffers_not_object)

lemma shape_dispatch:
  "expression_shape kvs = Some KCase \<Longrightarrow>
     unmarshalExpression (JObj kvs) = Case_UnmarshalJSON (JObj kvs)"
  "expression_shape kvs = Some KCoalesce \<Longrightarrow>
     unmarshalExpression (JObj kvs) = Coalesce_Unmarshal (JObj kvs)"
  "expression_shape kvs = Some KLiteral \<Longrightarrow>
     unmarshalExpression (JObj kvs) = Literal_UnmarshalJSON (JObj kvs)"
  "expression_shape kvs = Some KField \<Longrightarrow>
     unmarshalExpression (JObj kvs) =
       (case Field_UnmarshalJSON (JObj kvs) of Inl f \<Rightarrow> Inl f | Inr field \<Rightarrow> Inr (VField field))"
  "expression_shape kvs = Some KRangeOp \<Longrightarrow>
     unmarshalExpression (JObj kvs) = RangeOp_UnmarshalJSON (JObj kvs)"
  "expression_shape kvs = Some KBoolOp \<Longrightarrow>
     unmarshalExpression (JObj kvs) = BoolOp_UnmarshalJSON (JObj kvs)"
  by (auto simp: unmarshalExpression_JObj expression_shape_def split: if_splits)

lemma shape_is_case: "expression_shape kvs = Some KCase \<Longrightarrow> case_shape kvs"
  by (auto simp: expression_shape_def split: if_splits)

lemma kind_Field:
  "(case Field_UnmarshalJSON data of Inl f \<Rightarrow> Inl f | Inr field \<Rightarrow> Inr (VField field)) = Inr r
   \<Longrightarrow> kind_of r = KField"
  by (auto split: sum.splits)

lemma fallback:
  "unmarshalValue raw =
     (case unmarshalExpression raw of
        Inr e \<Rightarrow> Inr e
      | Inl (Panic p) \<Rightarrow> Inl (Panic p)
      | Inl (Error err) \<Rightarrow>
          (if numbers_in_range raw then Inr (json_to_any raw)
           else Inl (Error UnmarshalTypeError)))"
  by (simp add: unmarshalValue.simps Unmarshal_any_def split: sum.splits failure.splits)



text \<open>
  C1, as the code has it. \<open>unmarshalExpression\<close> tests the shapes in the order \<open>Case\<close>,
  \<open>Coalesce\<close> (key \<open>fields\<close>), \<open>Literal\<close> (key \<open>value\<close>), \<open>Field\<close> (key \<open>name\<close>), then
  \<open>RangeOp\<close> or \<open>BoolOp\<close> (keys \<open>op\<close> and \<open>fieldName\<close>, with or without \<open>start\<close>), and fails
  with the unknown-expression error on every other object. The first test is narrower than a
  first entry with the key \<open>when\<close>: the test decodes the whole array \<open>conditions\<close> into a
  list of untyped maps and is skipped when that fails (\<open>case_shape\<close>). In full:

  \<^item> a decoded value is of the variant that \<open>expression_shape\<close> names, so a node with the
    key \<open>value\<close> never decodes as a \<open>Field\<close>; a node of no shape gives the
    unknown-expression error;
  \<^item> a \<open>Case\<close> node with one member \<open>conditions\<close> gives the \<open>Case\<close> of its decoded entries
    and its decoded \<open>else\<close> when these decode, and they do when the node holds no number
    out of range and no \<open>null\<close> entry in an array;
  \<^item> a \<open>Coalesce\<close> node with one member \<open>fields\<close> gives the \<open>Coalesce\<close> of its decoded
    entries and its plain \<open>defaultValue\<close> when the entries decode;
  \<^item> a \<open>Literal\<close> node whose \<open>value\<close> is a string and whose \<open>args\<close> all decode gives the
    \<open>Literal\<close> of the decoded arguments, each decoded by \<open>unmarshalValue\<close>: as an expression
    and, when that returns an error, as a plain value;
  \<^item> a \<open>Field\<close> node, a \<open>RangeOp\<close> node and a \<open>BoolOp\<close> node whose members have the kinds of
    the fields give the struct with these fields;
  \<^item> \<open>unmarshalValue\<close> returns on every value that holds no number out of range and no
    \<open>null\<close> entry in an array.

  What the decoder does with a \<open>null\<close> entry of \<open>conditions\<close> or \<open>fields\<close> is not part of the
  statement.
\<close>

theorem expression_dispatch:
  "(\<forall>r. unmarshalExpression (JObj kvs) = Inr r \<longrightarrow> Some (kind_of r) = expression_shape kvs) \<and>
   (expression_shape kvs = None \<longrightarrow>
      unmarshalExpression (JObj kvs) = Inl (Error UnknownExpressionType)) \<and>
   (has_key ''value'' kvs \<longrightarrow> (\<forall>f. unmarshalExpression (JObj kvs) \<noteq> Inr (VField f))) \<and>
   (\<forall>raws wts els.
      expression_shape kvs = Some KCase \<and> members ''conditions'' kvs = [JArr raws] \<and>
      list_all2 (\<lambda>raw wt. WhenThen_UnmarshalJSON raw = Inr wt) raws wts \<and>
      value_of_member ''else'' kvs = Inr els \<longrightarrow>
      unmarshalExpression (JObj kvs) = Inr (VCase wts els)) \<and>
   (\<forall>raws.
      expression_shape kvs = Some KCase \<and> members ''conditions'' kvs = [JArr raws] \<and>
      no_null_entry (JObj kvs) \<and> numbers_in_range (JObj kvs) \<longrightarrow>
      (\<exists>wts els. unmarshalExpression (JObj kvs) = Inr (VCase wts els))) \<and>
   (\<forall>raws fs.
      expression_shape kvs = Some KCoalesce \<and> members ''fields'' kvs = [JArr raws] \<and>
      list_all2 (\<lambda>raw f. Field_UnmarshalJSON raw = Inr f) raws fs \<and>
      list_all numbers_in_range (members ''defaultValue'' kvs) \<longrightarrow>
      unmarshalExpression (JObj kvs) =
        Inr (VCoalesce fs (case raw_field (members ''defaultValue'' kvs) of None \<Rightarrow> VNil
                           | Some raw \<Rightarrow> json_to_any raw))) \<and>
   (\<forall>v raws args.
      expression_shape kvs = Some KLiteral \<and>
      string_field [] (members ''value'' kvs) = Some v \<and>
      raw_list_field [] (members ''args'' kvs) = Some raws \<and>
      list_all2 (\<lambda>raw a. unmarshalValue raw = Inr a) raws args \<longrightarrow>
      unmarshalExpression (JObj kvs) = Inr (VLiteral v args)) \<and>
   (\<forall>v args. unmarshalExpression (JObj kvs) = Inr (VLiteral v args) \<longrightarrow>
      (\<exists>raws. raw_list_field [] (members ''args'' kvs) = Some raws \<and>
              list_all2 (\<lambda>raw a. unmarshalValue raw = Inr a) raws args)) \<and>
   (\<forall>name tableAlias fieldAlias.
      expression_shape kvs = Some KField \<and>
      string_field [] (members ''name'' kvs) = Some name \<and>
      string_field [] (members ''tableAlias'' kvs) = Some tableAlias \<and>
      string_field [] (members ''fieldAlias'' kvs) = Some fieldAlias \<longrightarrow>
      (raw_field (members ''exp'' kvs) = None \<longrightarrow>
         unmarshalExpression (JObj kvs) = Inr (VField (Field name tableAlias fieldAlias VNil))) \<and>
      (\<forall>raw e. raw_field (members ''exp'' kvs) = Some raw \<and> unmarshalExpression raw = Inr e \<longrightarrow>
         unmarshalExpression (JObj kvs) = Inr (VField (Field name tableAlias fieldAlias e)))) \<and>
   (\<forall>op fieldName tableAlias start end.
      expression_shape kvs = Some KRangeOp \<and>
      string_field [] (members ''op'' kvs) = Some op \<and>
      string_field [] (members ''fieldName'' kvs) = Some fieldName \<and>
      string_field [] (members ''tableAlias'' kvs) = Some tableAlias \<and>
      value_of_member ''start'' kvs = Inr start \<and> value_of_member ''end'' kvs = Inr end \<longrightarrow>
      unmarshalExpression (JObj kvs) =
        Inr (VRangeOp (stringToRangeOp op) fieldName tableAlias start end)) \<and>
   (\<forall>op fieldName tableAlias v.
      expression_shape kvs = Some KBoolOp \<and>
      string_field [] (members ''op'' kvs) = Some op \<and>
      string_field [] (members ''fieldName'' kvs) = Some fieldName \<and>
      string_field [] (members ''tableAlias'' kvs) = Some tableAlias \<and>
      value_of_member ''value'' kvs = Inr v \<longrightarrow>
      unmarshalExpression (JObj kvs) =
        Inr (VBoolOp (stringToBoolOp op) fieldName tableAlias v)) \<and>
   (\<forall>raw. unmarshalValue raw =
      (case unmarshalExpression raw of
         Inr e \<Rightarrow> Inr e
       | Inl (Panic p) \<Rightarrow> Inl (Panic p)
       | Inl (Error err) \<Rightarrow>
           (if numbers_in_range raw then Inr (json_to_any raw)
            else Inl (Error UnmarshalTypeError)))) \<and>
   (\<forall>raw. no_null_entry raw \<and> numbers_in_range raw \<longrightarrow> (\<exists>a. unmarshalValue raw = Inr a))"
proof -
  have 1: "\<forall>r. unmarshalExpression (JObj kvs) = Inr r \<longrightarrow> Some (kind_of r) = expression_shape kvs"
    by (auto simp: unmarshalExpression_JObj expression_shape_def split: if_splits
        dest: kind_BoolOp kind_RangeOp kind_Case kind_Coalesce kind_Literal kind_Field)
  have 2: "expression_shape kvs = None \<longrightarrow>
      unmarshalExpression (JObj kvs) = Inl (Error UnknownExpressionType)"
    by (auto simp: unmarshalExpression_JObj expression_shape_def split: if_splits)
  have 3: "has_key ''value'' kvs \<longrightarrow> (\<forall>f. unmarshalExpression (JObj kvs) \<noteq> Inr (VField f))"
  proof (intro impI allI notI)
    fix f assume v: "has_key ''value'' kvs" and "unmarshalExpression (JObj kvs) = Inr (VField f)"
    with 1 have "expression_shape kvs = Some KField" by force
    with v show False
      by (auto simp: expression_shape_def split: if_splits)
  qed
  have 4: "\<forall>raws wts els.
      expression_shape kvs = Some KCase \<and> members ''conditions'' kvs = [JArr raws] \<and>
      list_all2 (\<lambda>raw wt. WhenThen_UnmarshalJSON raw = Inr wt) raws wts \<and>
      value_of_member ''else'' kvs = Inr els \<longrightarrow>
      unmarshalExpression (JObj kvs) = Inr (VCase wts els)"
    using shape_dispatch(1) Case_returns_value by simp
  have 5: "\<forall>raws.
      expression_shape kvs = Some KCase \<and> members ''conditions'' kvs = [JArr raws] \<and>
      no_null_entry (JObj kvs) \<and> numbers_in_range (JObj kvs) \<longrightarrow>
      (\<exists>wts els. unmarshalExpression (JObj kvs) = Inr (VCase wts els))"
    using shape_dispatch(1) shape_is_case clean_Case_returns by metis
  have 6: "\<forall>raws fs.
      expression_shape kvs = Some KCoalesce \<and> members ''fields'' kvs = [JArr raws] \<and>
      list_all2 (\<lambda>raw f. Field_UnmarshalJSON raw = Inr f) raws fs \<and>
      list_all numbers_in_range (members ''defaultValue'' kvs) \<longrightarrow>
      unmarshalExpression (JObj kvs) =
        Inr (VCoalesce fs (case raw_field (members ''defaultValue'' kvs) of None \<Rightarrow> VNil
                           | Some raw \<Rightarrow> json_to_any raw))"
    using shape_dispatch(2) Coalesce_returns_value by simp
  have 7: "\<forall>v raws args.
      expression_shape kvs = Some KLiteral \<and>
      string_field [] (members ''value'' kvs) = Some v \<and>
      raw_list_field [] (members ''args'' kvs) = Some raws \<and>
      list_all2 (\<lambda>raw a. unmarshalValue raw = Inr a) raws args \<longrightarrow>
      unmarshalExpression (JObj kvs) = Inr (VLiteral v args)"
    using shape_dispatch(3) Literal_returns_value by simp
  have 8: "\<forall>v args. unmarshalExpression (JObj kvs) = Inr (VLiteral v args) \<longrightarrow>
      (\<exists>raws. raw_list_field [] (members ''args'' kvs) = Some raws \<and>
              list_all2 (\<lambda>raw a. unmarshalValue raw = Inr a) raws args)"
  proof (intro allI impI)
    fix v args assume a: "unmarshalExpression (JObj kvs) = Inr (VLiteral v args)"
    with 1 have "expression_shape kvs = Some KLiteral" by force
    with a have "Literal_UnmarshalJSON (JObj kvs) = Inr (VLiteral v args)"
      by (simp add: shape_dispatch(3))
    then show "\<exists>raws. raw_list_field [] (members ''args'' kvs) = Some raws \<and>
              list_all2 (\<lambda>raw a. unmarshalValue raw = Inr a) raws args"
      by (rule Literal_args)
  qed
  have 9: "\<forall>name tableAlias fieldAlias.
      expression_shape kvs = Some KField \<and>
      string_field [] (members ''name'' kvs) = Some name \<and>
      string_field [] (members ''tableAlias'' kvs) = Some tableAlias \<and>
      string_field [] (members ''fieldAlias'' kvs) = Some fieldAlias \<longrightarrow>
      (raw_field (members ''exp'' kvs) = None \<longrightarrow>
         unmarshalExpression (JObj kvs) = Inr (VField (Field name tableAlias fieldAlias VNil))) \<and>
      (\<forall>raw e. raw_field (members ''exp'' kvs) = Some raw \<and> unmarshalExpression raw = Inr e \<longrightarrow>
         unmarshalExpression (JObj kvs) = Inr (VField (Field name tableAlias fieldAlias e)))"
  proof (intro allI impI)
    fix name tableAlias fieldAlias
    assume a: "expression_shape kvs = Some KField \<and>
      string_field [] (members ''name'' kvs) = Some name \<and>
      string_field [] (members ''tableAlias'' kvs) = Some tableAlias \<and>
      string_field [] (members ''fieldAlias'' kvs) = Some fieldAlias"
    then have f: "(raw_field (members ''exp'' kvs) = None \<longrightarrow>
        Field_UnmarshalJSON (JObj kvs) = Inr (Field name tableAlias fieldAlias VNil)) \<and>
      (\<forall>raw e. raw_field (members ''exp'' kvs) = Some raw \<and> unmarshalExpression raw = Inr e \<longrightarrow>
        Field_UnmarshalJSON (JObj kvs) = Inr (Field name tableAlias fieldAlias e))"
      by (intro Field_returns_value) simp_all
    from a have d: "unmarshalExpression (JObj kvs) =
       (case Field_UnmarshalJSON (JObj kvs) of Inl f \<Rightarrow> Inl f | Inr field \<Rightarrow> Inr (VField field))"
      by (intro shape_dispatch(4)) simp
    show "(raw_field (members ''exp'' kvs) = None \<longrightarrow>
         unmarshalExpression (JObj kvs) = Inr (VField (Field name tableAlias fieldAlias VNil))) \<and>
      (\<forall>raw e. raw_field (members ''exp'' kvs) = Some raw \<and> unmarshalExpression raw = Inr e \<longrightarrow>
         unmarshalExpression (JObj kvs) = Inr (VField (Field name tableAlias fieldAlias e)))"
    proof (intro conjI impI allI)
      assume "raw_field (members ''exp'' kvs) = None"
      with f have "Field_UnmarshalJSON (JObj kvs) = Inr (Field name tableAlias fieldAlias VNil)"
        by simp
      then show "unmarshalExpression (JObj kvs) = Inr (VField (Field name tableAlias fieldAlias VNil))"
        by (simp add: d)
    next
      fix raw e
      assume "raw_field (members ''exp'' kvs) = Some raw \<and> unmarshalExpression raw = Inr e"
      with f have "Field_UnmarshalJSON (JObj kvs) = Inr (Field name tableAlias fieldAlias e)"
        by blast
      then show "unmarshalExpression (JObj kvs) = Inr (VField (Field name tableAlias fieldAlias e))"
        by (simp add: d)
    qed
  qed
  have 10: "\<forall>op fieldName tableAlias start end.
      expression_shape kvs = Some KRangeOp \<and>
      string_field [] (members ''op'' kvs) = Some op \<and>
      string_field [] (members ''fieldName'' kvs) = Some fieldName \<and>
      string_field [] (members ''tableAlias'' kvs) = Some tableAlias \<and>
      value_of_member ''start'' kvs = Inr start \<and> value_of_member ''end'' kvs = Inr end \<longrightarrow>
      unmarshalExpression (JObj kvs) =
        Inr (VRangeOp (stringToRangeOp op) fieldName tableAlias start end)"
    using shape_dispatch(5) RangeOp_returns_value by simp
  have 11: "\<forall>op fieldName tableAlias v.
      expression_shape kvs = Some KBoolOp \<and>
      string_field [] (members ''op'' kvs) = Some op \<and>
      string_field [] (members ''fieldName'' kvs) = Some fieldName \<and>
      string_field [] (members ''tableAlias'' kvs) = Some tableAlias \<and>
      value_of_member ''value'' kvs = Inr v \<longrightarrow>
      unmarshalExpression (JObj kvs) =
        Inr (VBoolOp (stringToBoolOp op) fieldName tableAlias v)"
    using shape_dispatch(6) BoolOp_returns_value by simp
  have 12: "\<forall>raw. unmarshalValue raw =
      (case unmarshalExpression raw of
         Inr e \<Rightarrow> Inr e
       | Inl (Panic p) \<Rightarrow> Inl (Panic p)
       | Inl (Error err) \<Rightarrow>
           (if numbers_in_range raw then Inr (json_to_any raw)
            else Inl (Error UnmarshalTypeError)))"
    using fallback by blast
  have 13: "\<forall>raw. no_null_entry raw \<and> numbers_in_range raw \<longrightarrow> (\<exists>a. unmarshalValue raw = Inr a)"
    using unmarshalValue_returns by blast
  show ?thesis
    using 1 2 3 4 5 6 7 8 9 10 11 12 13 by (intro conjI)
qed

theorem expression_dispatch_witness:
  "expression_shape [(''name'', JStr ''total''), (''value'', JStr ''SUM(?)''),
      (''args'', JArr [JObj [(''name'', JStr ''amount''), (''tableAlias'', JStr ''o'')],
                       JNum (Float64 1)])] = Some KLiteral \<and>
   unmarshalExpression (JObj [(''name'', JStr ''total''), (''value'', JStr ''SUM(?)''),
      (''args'', JArr [JObj [(''name'', JStr ''amount''), (''tableAlias'', JStr ''o'')],
                       JNum (Float64 1)])])
     = Inr (VLiteral ''SUM(?)'' [VField (Field ''amount'' ''o'' [] VNil), VNum 1]) \<and>
   unmarshalExpression (JObj [(''conditions'',
      JArr [JObj [(''when'', JObj [(''op'', JStr ''gt''), (''fieldName'', JStr ''age''),
                                   (''value'', JNum (Float64 17))]),
                  (''then'', JStr ''adult'')]]),
      (''else'', JStr ''minor'')])
     = Inr (VCase [(VBoolOp GtOp ''age'' [] (VNum 17), VStr ''adult'')] (VStr ''minor'')) \<and>
   unmarshalExpression (JObj [(''fields'', JArr [JObj [(''name'', JStr ''nick'')],
                                                JObj [(''name'', JStr ''name'')]]),
                              (''defaultValue'', JStr ''n/a'')])
     = Inr (VCoalesce [Field ''nick'' [] [] VNil, Field ''name'' [] [] VNil] (VStr ''n/a'')) \<and>
   unmarshalExpression (JObj [(''tableAlias'', JStr ''o'')]) = Inl (Error UnknownExpressionType)"
proof -
  let ?amount = "[(''name'', JStr ''amount''), (''tableAlias'', JStr ''o'')]"
  let ?lit = "[(''name'', JStr ''total''), (''value'', JStr ''SUM(?)''),
      (''args'', JArr [JObj ?amount, JNum (Float64 1)])]"
  let ?when = "[(''op'', JStr ''gt''), (''fieldName'', JStr ''age''), (''value'', JNum (Float64 17))]"
  let ?wt = "[(''when'', JObj ?when), (''then'', JStr ''adult'')]"
  let ?case = "[(''conditions'', JArr [JObj ?wt]), (''else'', JStr ''minor'')]"
  let ?co = "[(''fields'', JArr [JObj [(''name'', JStr ''nick'')], JObj [(''name'', JStr ''name'')]]),
      (''defaultValue'', JStr ''n/a'')]"
  have s: "expression_shape ?lit = Some KLiteral"
    by (simp add: expression_shape_def case_shape_def lookup_def has_key_def)
  have hf: "expression_shape ?amount = Some KField \<and>
      string_field [] (members ''name'' ?amount) = Some ''amount'' \<and>
      string_field [] (members ''tableAlias'' ?amount) = Some ''o'' \<and>
      string_field [] (members ''fieldAlias'' ?amount) = Some []"
    by (simp add: expression_shape_def case_shape_def lookup_def has_key_def members_def
        foldChar_def)
  have ne: "raw_field (members ''exp'' ?amount) = None"
    by (simp add: members_def foldChar_def raw_field_def)
  note expression_dispatch [where kvs = ?amount, THEN conjunct2, THEN conjunct2, THEN conjunct2,
      THEN conjunct2, THEN conjunct2, THEN conjunct2, THEN conjunct2, THEN conjunct2,
      THEN conjunct1, rule_format, OF hf, THEN conjunct1, rule_format, OF ne]
  then have f: "unmarshalExpression (JObj ?amount) = Inr (VField (Field ''amount'' ''o'' [] VNil))" .
  have a: "unmarshalValue (JObj ?amount) = Inr (VField (Field ''amount'' ''o'' [] VNil))"
    by (simp add: unmarshalValue.simps f)
  have hl: "expression_shape ?lit = Some KLiteral \<and>
      string_field [] (members ''value'' ?lit) = Some ''SUM(?)'' \<and>
      raw_list_field [] (members ''args'' ?lit) = Some [JObj ?amount, JNum (Float64 1)] \<and>
      list_all2 (\<lambda>raw a. unmarshalValue raw = Inr a) [JObj ?amount, JNum (Float64 1)]
        [VField (Field ''amount'' ''o'' [] VNil), VNum 1]"
    using s a by (simp add: members_def foldChar_def unmarshalValue.simps
        unmarshalExpression.simps Unmarshal_any_def)
  note expression_dispatch [where kvs = ?lit, THEN conjunct2, THEN conjunct2, THEN conjunct2,
      THEN conjunct2, THEN conjunct2, THEN conjunct2, THEN conjunct1, rule_format, OF hl]
  then have 1: "unmarshalExpression (JObj ?lit)
      = Inr (VLiteral ''SUM(?)'' [VField (Field ''amount'' ''o'' [] VNil), VNum 1])" .
  have w: "WhenThen_UnmarshalJSON (JObj ?wt) = Inr (VBoolOp GtOp ''age'' [] (VNum 17), VStr ''adult'')"
    by (simp add: WhenThen_UnmarshalJSON.simps members_def foldChar_def raw_field_def
        unmarshalCondition.simps BoolOp_UnmarshalJSON.simps unmarshalValue.simps
        unmarshalExpression.simps Unmarshal_any_def stringToBoolOp_def)
  have hc: "expression_shape ?case = Some KCase \<and>
      members ''conditions'' ?case = [JArr [JObj ?wt]] \<and>
      list_all2 (\<lambda>raw wt. WhenThen_UnmarshalJSON raw = Inr wt) [JObj ?wt]
        [(VBoolOp GtOp ''age'' [] (VNum 17), VStr ''adult'')] \<and>
      value_of_member ''else'' ?case = Inr (VStr ''minor'')"
    using w by (simp add: expression_shape_def case_shape_def lookup_def has_key_def
        members_def foldChar_def value_of_member_def raw_field_def unmarshalValue.simps
        unmarshalExpression.simps Unmarshal_any_def)
  note expression_dispatch [where kvs = ?case, THEN conjunct2, THEN conjunct2, THEN conjunct2,
      THEN conjunct1, rule_format, OF hc]
  then have 2: "unmarshalExpression (JObj ?case)
      = Inr (VCase [(VBoolOp GtOp ''age'' [] (VNum 17), VStr ''adult'')] (VStr ''minor''))" .
  have fs: "Field_UnmarshalJSON (JObj [(''name'', JStr ''nick'')]) = Inr (Field ''nick'' [] [] VNil)"
    "Field_UnmarshalJSON (JObj [(''name'', JStr ''name'')]) = Inr (Field ''name'' [] [] VNil)"
    by (simp_all add: Field_UnmarshalJSON.simps members_def foldChar_def raw_field_def)
  have ho: "expression_shape ?co = Some KCoalesce \<and>
      members ''fields'' ?co = [JArr [JObj [(''name'', JStr ''nick'')], JObj [(''name'', JStr ''name'')]]] \<and>
      list_all2 (\<lambda>raw f. Field_UnmarshalJSON raw = Inr f)
        [JObj [(''name'', JStr ''nick'')], JObj [(''name'', JStr ''name'')]]
        [Field ''nick'' [] [] VNil, Field ''name'' [] [] VNil] \<and>
      list_all numbers_in_range (members ''defaultValue'' ?co)"
    using fs by (simp add: expression_shape_def case_shape_def lookup_def has_key_def
        members_def foldChar_def)
  note expression_dispatch [where kvs = ?co, THEN conjunct2, THEN conjunct2, THEN conjunct2,
      THEN conjunct2, THEN conjunct2, THEN conjunct1, rule_format, OF ho]
  then have 3: "unmarshalExpression (JObj ?co)
      = Inr (VCoalesce [Field ''nick'' [] [] VNil, Field ''name'' [] [] VNil] (VStr ''n/a''))"
    by (simp add: members_def foldChar_def raw_field_def)
  have n: "expression_shape [(''tableAlias'', JStr ''o'')] = None"
    by (simp add: expression_shape_def case_shape_def lookup_def has_key_def)
  note expression_dispatch [where kvs = "[(''tableAlias'', JStr ''o'')]",
      THEN conjunct2, THEN conjunct1]
  with n have 4: "unmarshalExpression (JObj [(''tableAlias'', JStr ''o'')])
      = Inl (Error UnknownExpressionType)"
    by (rule rev_mp)
  show ?thesis
    using s 1 2 3 4 by (intro conjI)
qed

text \<open>
  As the specification words it, the property fails. The first entry of \<open>conditions\<close> has
  the key \<open>when\<close>, the second entry is a number (or the first entry holds the number
  \<open>1e400\<close>), and the node decodes as a \<open>Field\<close>, not as a \<open>Case\<close>. A node with the keys
  \<open>value\<close> and \<open>name\<close> that also has the key \<open>fields\<close> decodes as a \<open>Coalesce\<close>, not as a
  \<open>Literal\<close>. And a \<open>null\<close> entry of \<open>conditions\<close> or of \<open>fields\<close> is handed to the
  \<open>UnmarshalJSON\<close> of \<open>WhenThen\<close> or of \<open>Field\<close>, where \<open>json.Unmarshal\<close> sets the pointer
  \<open>aux\<close> to nil and the next line dereferences it: the call panics, it decodes nothing.
\<close>

theorem case_priority_counterexample:
  "lookup ''conditions'' [(''conditions'',
      JArr [JObj [(''when'', JNum (Float64 1)), (''then'', JNum (Float64 2))], JNum (Float64 5)]),
      (''name'', JStr ''x'')]
     = Some (JArr [JObj [(''when'', JNum (Float64 1)), (''then'', JNum (Float64 2))],
                   JNum (Float64 5)]) \<and>
   has_key ''when'' [(''when'', JNum (Float64 1)), (''then'', JNum (Float64 2))] \<and>
   unmarshalExpression (JObj [(''conditions'',
      JArr [JObj [(''when'', JNum (Float64 1)), (''then'', JNum (Float64 2))], JNum (Float64 5)]),
      (''name'', JStr ''x'')])
     = Inr (VField (Field ''x'' [] [] VNil)) \<and>
   unmarshalExpression (JObj [(''conditions'',
      JArr [JObj [(''when'', JNum OutOfRange), (''then'', JNum (Float64 2))]]),
      (''name'', JStr ''x'')])
     = Inr (VField (Field ''x'' [] [] VNil)) \<and>
   unmarshalExpression (JObj [(''value'', JStr ''NOW()''), (''name'', JStr ''n''),
      (''fields'', JArr [])])
     = Inr (VCoalesce [] VNil) \<and>
   unmarshalExpression (JObj [(''conditions'',
      JArr [JObj [(''when'', JNum (Float64 1)), (''then'', JNum (Float64 2))], JNull])])
     = Inl (Panic NilPointerDereference) \<and>
   unmarshalExpression (JObj [(''fields'', JArr [JNull])]) = Inl (Panic NilPointerDereference)"
  by (simp add: lookup_def has_key_def unmarshalExpression.simps hasCaseShape_def
      Field_UnmarshalJSON.simps Coalesce_Unmarshal.simps members_def foldChar_def raw_field_def
      Case_UnmarshalJSON.simps Case_conditions_field.simps Case_conditions_loop.simps
      WhenThen_UnmarshalJSON.simps Coalesce_fields_field.simps Coalesce_fields_loop.simps
      unmarshalCondition.simps unmarshalValue.simps Unmarshal_any_def)

section \<open>Round trip of a \<open>BoolOp\<close>\<close>

text \<open>
  C7, at the failing input. \<open>boolOpToString\<close> has no case for the four regular-expression
  operators, so \<open>BoolOp.MarshalJSON\<close> writes \<open>eq\<close> for them and decoding the result gives
  \<open>EqOp\<close>: the \<open>BoolOp\<close> with \<open>RegexpLikeOp\<close> does not come back. For the fourteen operators
  that have a name the operator does come back.
\<close>

theorem regexp_operator_lost:
  "BoolOp_MarshalJSON RegexpLikeOp ''name'' [] (VStr ''^a'') =
     Some (JObj [(''op'', JStr ''eq''), (''fieldName'', JStr ''name''), (''value'', JStr ''^a'')]) \<and>
   unmarshalCondition
     (JObj [(''op'', JStr ''eq''), (''fieldName'', JStr ''name''), (''value'', JStr ''^a'')])
     = Inr (VBoolOp EqOp ''name'' [] (VStr ''^a'')) \<and>
   stringToBoolOp (boolOpToString RegexpLikeOp) = EqOp \<and>
   stringToBoolOp (boolOpToString RegexpNotLikeOp) = EqOp \<and>
   stringToBoolOp (boolOpToString RegexpILikeOp) = EqOp \<and>
   stringToBoolOp (boolOpToString RegexpNotILikeOp) = EqOp"
  by (simp add: BoolOp_MarshalJSON_def unmarshalCondition.simps BoolOp_UnmarshalJSON.simps
      members_def foldChar_def raw_field_def unmarshalValue.simps unmarshalExpression.simps
      hasCaseShape_def Unmarshal_any_def stringToBoolOp_def)

lemma named_operator_round_trip:
  "op \<in> {EqOp, NeqOp, IsOp, IsNotOp, GtOp, GteOp, LtOp, LteOp, InOp, NotInOp, LikeOp, NotLikeOp,
          ILikeOp, NotILikeOp} \<Longrightarrow> stringToBoolOp (boolOpToString op) = op"
  by (auto simp: stringToBoolOp_def)

section \<open>The resolver on sequences\<close>

lemma apply_opts_total: "None \<notin> set opts \<Longrightarrow> \<exists>alias. apply_opts opts a = Inr alias"
proof (induction opts arbitrary: a)
  case Nil
  show ?case by simp
next
  case (Cons o1 opts)
  then show ?case by (cases o1) auto
qed

text \<open>
  Resolving an empty sequence gives the literal \<open>(?)\<close> bound to one argument, the empty value
  list; a non-empty sequence is handed to goqu as one bound value, the sequence itself with
  its elements in order. The resolver returns in each case, it does not raise.
\<close>

lemma sequence_resolves:
  "None \<notin> set opts \<Longrightarrow>
     handleAny (VSlice []) opts = Inr (Some (goqu_L ''(?)'' [ExprArg (goqu_V (VSlice []))])) \<and>
     (xs \<noteq> [] \<longrightarrow> handleAny (VSlice xs) opts = Inr (Some (goqu_V (VSlice xs))))"
proof -
  assume "None \<notin> set opts"
  then obtain al where a: "apply_opts opts [] = Inr al"
    using apply_opts_total by blast
  have 1: "handleAny (VSlice []) opts = Inr (Some (goqu_L ''(?)'' [ExprArg (goqu_V (VSlice []))]))"
    using a by (simp add: handleAny.simps handleAny_typed.simps)
  have 2: "xs \<noteq> [] \<longrightarrow> handleAny (VSlice xs) opts = Inr (Some (goqu_V (VSlice xs)))"
    using a by (simp add: handleAny.simps handleAny_typed.simps)
  show ?thesis using 1 2 by blast
qed

text \<open>
  C5, at the failing input: the condition \<open>In("id", "u", []any{})\<close> in the \<open>Wheres\<close> of a
  builder. The value resolves to \<open>goqu.L("(?)", goqu.V([]any{}))\<close>, the condition compiles to
  the membership test of the column against this literal, and \<open>Select\<close> hands goqu the
  dataset with this condition in its \<open>Where\<close> clause. The text of the query is goqu's work:
  it puts the bound value in the place of the \<open>?\<close> and writes an empty slice as \<open>()\<close>, which
  makes the literal \<open>(())\<close>.
\<close>

theorem empty_in_literal:
  "handleAny (VSlice []) [] = Inr (Some (goqu_L ''(?)'' [ExprArg (goqu_V (VSlice []))])) \<and>
   BoolOp_expression InOp ''id'' ''u'' (VSlice []) =
     Inr (Some (BooleanExpression InOp (goqu_C_Table ''id'' ''u'')
                  (ExprArg (goqu_L ''(?)'' [ExprArg (goqu_V (VSlice []))])))) \<and>
   Select toSQL (Where (New ''postgres'' ''users'' ''u'') [VBoolOp InOp ''id'' ''u'' (VSlice [])]) =
     Inr (toSQL (Dataset FromK (As (goqu_T ''users'') ''u'')
       [ds_WithDialect ''postgres'',
        ds_Where [Some (BooleanExpression InOp (goqu_C_Table ''id'' ''u'')
                    (ExprArg (goqu_L ''(?)'' [ExprArg (goqu_V (VSlice []))])))],
        ds_Limit 10, ds_Prepared True]))"
  by (simp add: handleAny.simps handleAny_typed.simps BoolOp_expression.simps
      identifierExpression_def Select_def mainSelect.simps New_def applyLimitOffset_def)

section \<open>The default limit\<close>

lemma join_clause_plain: "\<not> limit_or_offset (join_clause jt t on)"
  by (cases jt) simp_all

lemma clauses_call: "clauses (call ds c) = clauses ds @ [c]"
  by (cases ds) simp

lemma joins_plain:
  "(\<forall>rels ds ds'. size_list size rels < n \<longrightarrow> Relations_loop rels ds = Inr ds' \<longrightarrow>
      list_all (\<lambda>c. \<not> limit_or_offset c) (clauses ds) \<longrightarrow>
      list_all (\<lambda>c. \<not> limit_or_offset c) (clauses ds')) \<and>
   (\<forall>r ds ds'. size r < n \<longrightarrow> Relation_join r ds = Inr ds' \<longrightarrow>
      list_all (\<lambda>c. \<not> limit_or_offset c) (clauses ds) \<longrightarrow>
      list_all (\<lambda>c. \<not> limit_or_offset c) (clauses ds'))"
proof (induction n)
  case 0
  show ?case by simp
next
  case (Suc n)
  have join: "list_all (\<lambda>c. \<not> limit_or_offset c) (clauses ds')"
    if "size r < Suc n" "Relation_join r ds = Inr ds'"
      "list_all (\<lambda>c. \<not> limit_or_offset c) (clauses ds)" for r ds ds'
  proof -
    from that(2) obtain onConds where
      l: "Relations_loop (tbl_Relations (rel_Table r))
            (call ds (join_clause (rel_JoinType r)
                        (As (goqu_T (tbl_Name (rel_Table r))) (tbl_Alias (rel_Table r)))
                        onConds)) = Inr ds'"
      by (auto simp: Relation_join.simps Let_def split: sum.splits)
    have "size_list size (tbl_Relations (rel_Table r)) < size r"
      by (cases r, cases "rel_Table r") simp
    with that(1) have s: "size_list size (tbl_Relations (rel_Table r)) < n"
      by simp
    have "list_all (\<lambda>c. \<not> limit_or_offset c)
        (clauses (call ds (join_clause (rel_JoinType r)
                        (As (goqu_T (tbl_Name (rel_Table r))) (tbl_Alias (rel_Table r)))
                        onConds)))"
      using that(3) by (simp add: clauses_call join_clause_plain)
    with Suc.IH s l show ?thesis by blast
  qed
  have loop: "list_all (\<lambda>c. \<not> limit_or_offset c) (clauses ds')"
    if "size_list size rels < Suc n" "Relations_loop rels ds = Inr ds'"
      "list_all (\<lambda>c. \<not> limit_or_offset c) (clauses ds)" for rels ds ds'
    using that
  proof (induction rels arbitrary: ds)
    case Nil
    then show ?case by simp
  next
    case (Cons rel rels)
    from Cons.prems(2) obtain ds1 where j: "Relation_join rel ds = Inr ds1"
      and r: "Relations_loop rels ds1 = Inr ds'"
      by (auto split: sum.splits)
    from Cons.prems(1) have "size rel < Suc n" by simp
    from join [OF this j Cons.prems(3)]
    have "list_all (\<lambda>c. \<not> limit_or_offset c) (clauses ds1)" .
    moreover from Cons.prems(1) have "size_list size rels < Suc n" by simp
    ultimately show ?case using r Cons.IH by blast
  qed
  show ?case using join loop by blast
qed

lemma Relations_loop_plain:
  "Relations_loop rels ds = Inr ds' \<Longrightarrow>
   list_all (\<lambda>c. \<not> limit_or_offset c) (clauses ds) \<Longrightarrow>
   list_all (\<lambda>c. \<not> limit_or_offset c) (clauses ds')"
  using joins_plain [of "Suc (size_list size rels)"] by blast

lemma mainSelect_plain:
  "mainSelect qb = Inr ds \<Longrightarrow> list_all (\<lambda>c. \<not> limit_or_offset c) (clauses ds)"
proof -
  assume m: "mainSelect qb = Inr ds"
  let ?ds0 = "call (Dataset FromK (As (goqu_T (tbl_Name (qb_Table qb))) (tbl_Alias (qb_Table qb))) [])
                 (ds_WithDialect (Dialect qb))"
  from m obtain ds1 where r: "Relations_loop (tbl_Relations (qb_Table qb)) ?ds0 = Inr ds1"
    by (auto simp: mainSelect.simps Let_def split: sum.splits)
  have "list_all (\<lambda>c. \<not> limit_or_offset c) (clauses ?ds0)"
    by simp
  from Relations_loop_plain [OF r this] have 1: "list_all (\<lambda>c. \<not> limit_or_offset c) (clauses ds1)" .
  from m r show ?thesis
    using 1 by (auto simp: mainSelect.simps Let_def clauses_call split: sum.splits if_splits)
qed

lemma Limit_keeps:
  "Dialect (Limit qb n) = Dialect qb" "Fields (Limit qb n) = Fields qb"
  "qb_Table (Limit qb n) = qb_Table qb" "Wheres (Limit qb n) = Wheres qb"
  "Sorts (Limit qb n) = Sorts qb" "GroupBy (Limit qb n) = GroupBy qb"
  by (cases qb; simp)+

lemma Offset_keeps:
  "Dialect (Offset qb n) = Dialect qb" "Fields (Offset qb n) = Fields qb"
  "qb_Table (Offset qb n) = qb_Table qb" "Wheres (Offset qb n) = Wheres qb"
  "Sorts (Offset qb n) = Sorts qb" "GroupBy (Offset qb n) = GroupBy qb"
  by (cases qb; simp)+

lemma Limit_sets:
  "limit (Limit qb n) = n" "offset (Limit qb n) = offset qb"
  "offset (Offset qb n) = n" "limit (Offset qb n) = limit qb"
  by (cases qb; simp)+

lemma mainSelect_limit: "mainSelect (Limit qb n) = mainSelect qb"
  unfolding mainSelect.simps Limit_keeps by (rule refl)

lemma mainSelect_offset: "mainSelect (Offset qb n) = mainSelect qb"
  unfolding mainSelect.simps Offset_keeps by (rule refl)

text \<open>
  C9. A builder made by \<open>New\<close> has the limit 10 and the offset 0; \<open>Limit\<close> and \<open>Offset\<close> set
  the one and leave the other, and neither changes what \<open>mainSelect\<close> builds. For every
  builder, \<open>Select\<close> and \<open>Count\<close> render the prepared dataset of \<open>mainSelect\<close>, which has no
  \<open>Limit\<close> and no \<open>Offset\<close> clause of its own, followed by \<open>Limit(limit)\<close> when the limit is
  above zero and by \<open>Offset(offset)\<close> when the offset is above zero. So a builder from \<open>New\<close>
  is rendered with \<open>Limit(10)\<close>, after \<open>Limit(n)\<close> with \<open>Limit(n)\<close> in its place, and after
  \<open>Limit(0)\<close> with no \<open>Limit\<close> clause at all; likewise for \<open>Offset\<close>, and
  \<open>applyLimitOffset\<close> itself adds no clause for a limit or an offset of zero.
\<close>

theorem default_limit:
  "limit (New dialect tableName tableAlias) = 10 \<and>
   offset (New dialect tableName tableAlias) = 0 \<and>
   limit (Limit qb n) = n \<and> offset (Limit qb n) = offset qb \<and>
   mainSelect (Limit qb n) = mainSelect qb \<and>
   offset (Offset qb n) = n \<and> limit (Offset qb n) = limit qb \<and>
   mainSelect (Offset qb n) = mainSelect qb \<and>
   (\<forall>k t cs. mainSelect qb = Inr (Dataset k t cs) \<longrightarrow>
      list_all (\<lambda>c. \<not> limit_or_offset c) cs \<and>
      Select toSQL qb =
        Inr (toSQL (Dataset k t
          (cs @ (if 0 < limit qb then [ds_Limit (limit qb)] else [])
              @ (if 0 < offset qb then [ds_Offset (offset qb)] else [])
              @ [ds_Prepared True]))) \<and>
      Count toSQL qb =
        Inr (toSQL (Dataset k t
          (cs @ (if 0 < limit qb then [ds_Limit (limit qb)] else [])
              @ (if 0 < offset qb then [ds_Offset (offset qb)] else [])
              @ [ds_Prepared True, ds_Select [ExprArg (goqu_COUNT goqu_Star)]])))) \<and>
   clauses (applyLimitOffset qb ds) =
     clauses ds @ (if 0 < limit qb then [ds_Limit (limit qb)] else [])
                @ (if 0 < offset qb then [ds_Offset (offset qb)] else []) \<and>
   limit (Where qb conditions) = limit qb \<and> offset (Where qb conditions) = offset qb \<and>
   mainSelect (New dialect tableName tableAlias) =
     Inr (Dataset FromK (As (goqu_T tableName) tableAlias) [ds_WithDialect dialect]) \<and>
   Select toSQL (New dialect tableName tableAlias) =
     Inr (toSQL (Dataset FromK (As (goqu_T tableName) tableAlias)
       [ds_WithDialect dialect, ds_Limit 10, ds_Prepared True])) \<and>
   Count toSQL (New dialect tableName tableAlias) =
     Inr (toSQL (Dataset FromK (As (goqu_T tableName) tableAlias)
       [ds_WithDialect dialect, ds_Limit 10, ds_Prepared True,
        ds_Select [ExprArg (goqu_COUNT goqu_Star)]])) \<and>
   Select toSQL (Limit (New dialect tableName tableAlias) n) =
     Inr (toSQL (Dataset FromK (As (goqu_T tableName) tableAlias)
       ([ds_WithDialect dialect] @ (if 0 < n then [ds_Limit n] else []) @ [ds_Prepared True]))) \<and>
   Count toSQL (Limit (New dialect tableName tableAlias) n) =
     Inr (toSQL (Dataset FromK (As (goqu_T tableName) tableAlias)
       ([ds_WithDialect dialect] @ (if 0 < n then [ds_Limit n] else [])
          @ [ds_Prepared True, ds_Select [ExprArg (goqu_COUNT goqu_Star)]]))) \<and>
   Select toSQL (Offset (New dialect tableName tableAlias) n) =
     Inr (toSQL (Dataset FromK (As (goqu_T tableName) tableAlias)
       ([ds_WithDialect dialect, ds_Limit 10] @ (if 0 < n then [ds_Offset n] else [])
          @ [ds_Prepared True])))"
proof -
  have new: "mainSelect (New dialect tableName tableAlias) =
      Inr (Dataset FromK (As (goqu_T tableName) tableAlias) [ds_WithDialect dialect])"
    by (simp add: mainSelect.simps New_def)
  have 1: "limit (New dialect tableName tableAlias) = 10"
    "offset (New dialect tableName tableAlias) = 0"
    by (simp_all add: New_def)
  note 2 = Limit_sets [of qb n]
  have gen: "list_all (\<lambda>c. \<not> limit_or_offset c) cs \<and>
      Select toSQL qb =
        Inr (toSQL (Dataset k t
          (cs @ (if 0 < limit qb then [ds_Limit (limit qb)] else [])
              @ (if 0 < offset qb then [ds_Offset (offset qb)] else [])
              @ [ds_Prepared True]))) \<and>
      Count toSQL qb =
        Inr (toSQL (Dataset k t
          (cs @ (if 0 < limit qb then [ds_Limit (limit qb)] else [])
              @ (if 0 < offset qb then [ds_Offset (offset qb)] else [])
              @ [ds_Prepared True, ds_Select [ExprArg (goqu_COUNT goqu_Star)]])))"
    if m: "mainSelect qb = Inr (Dataset k t cs)" for qb k t cs
  proof -
    from mainSelect_plain [OF m] have "list_all (\<lambda>c. \<not> limit_or_offset c) cs" by simp
    then show ?thesis
      using m by (simp add: Select_def Count_def applyLimitOffset_def Let_def)
  qed
  have 3: "\<forall>k t cs. mainSelect qb = Inr (Dataset k t cs) \<longrightarrow>
      list_all (\<lambda>c. \<not> limit_or_offset c) cs \<and>
      Select toSQL qb =
        Inr (toSQL (Dataset k t
          (cs @ (if 0 < limit qb then [ds_Limit (limit qb)] else [])
              @ (if 0 < offset qb then [ds_Offset (offset qb)] else [])
              @ [ds_Prepared True]))) \<and>
      Count toSQL qb =
        Inr (toSQL (Dataset k t
          (cs @ (if 0 < limit qb then [ds_Limit (limit qb)] else [])
              @ (if 0 < offset qb then [ds_Offset (offset qb)] else [])
              @ [ds_Prepared True, ds_Select [ExprArg (goqu_COUNT goqu_Star)]])))"
    using gen by blast
  have 4: "Select toSQL (New dialect tableName tableAlias) =
     Inr (toSQL (Dataset FromK (As (goqu_T tableName) tableAlias)
       [ds_WithDialect dialect, ds_Limit 10, ds_Prepared True]))"
    "Count toSQL (New dialect tableName tableAlias) =
     Inr (toSQL (Dataset FromK (As (goqu_T tableName) tableAlias)
       [ds_WithDialect dialect, ds_Limit 10, ds_Prepared True,
        ds_Select [ExprArg (goqu_COUNT goqu_Star)]]))"
    using gen [OF new] by (simp_all add: 1)
  have ml: "mainSelect (Limit (New dialect tableName tableAlias) n) =
      Inr (Dataset FromK (As (goqu_T tableName) tableAlias) [ds_WithDialect dialect])"
    by (simp add: mainSelect_limit new)
  have mo: "mainSelect (Offset (New dialect tableName tableAlias) n) =
      Inr (Dataset FromK (As (goqu_T tableName) tableAlias) [ds_WithDialect dialect])"
    by (simp add: mainSelect_offset new)
  have 5: "Select toSQL (Limit (New dialect tableName tableAlias) n) =
     Inr (toSQL (Dataset FromK (As (goqu_T tableName) tableAlias)
       ([ds_WithDialect dialect] @ (if 0 < n then [ds_Limit n] else []) @ [ds_Prepared True])))"
    "Count toSQL (Limit (New dialect tableName tableAlias) n) =
     Inr (toSQL (Dataset FromK (As (goqu_T tableName) tableAlias)
       ([ds_WithDialect dialect] @ (if 0 < n then [ds_Limit n] else [])
          @ [ds_Prepared True, ds_Select [ExprArg (goqu_COUNT goqu_Star)]])))"
    using gen [OF ml] by (simp_all add: 1 Limit_sets)
  have 6: "Select toSQL (Offset (New dialect tableName tableAlias) n) =
     Inr (toSQL (Dataset FromK (As (goqu_T tableName) tableAlias)
       ([ds_WithDialect dialect, ds_Limit 10] @ (if 0 < n then [ds_Offset n] else [])
          @ [ds_Prepared True])))"
    using gen [OF mo] by (simp add: 1 Limit_sets)
  have 7: "clauses (applyLimitOffset qb ds) =
     clauses ds @ (if 0 < limit qb then [ds_Limit (limit qb)] else [])
                @ (if 0 < offset qb then [ds_Offset (offset qb)] else [])"
    by (cases ds) (simp add: applyLimitOffset_def Let_def)
  have 8: "limit (Where qb conditions) = limit qb" "offset (Where qb conditions) = offset qb"
    by (cases qb; simp)+
  show ?thesis
    using 1 2 mainSelect_limit [of qb n] mainSelect_offset [of qb n] 3 7 8 new 4 5 6
    by (intro conjI)
qed

theorem default_limit_witness:
  "mainSelect (Limit (New ''mysql'' ''users'' ''u'') 25) =
     Inr (Dataset FromK (As (goqu_T ''users'') ''u'') [ds_WithDialect ''mysql'']) \<and>
   Select (\<lambda>ds. (if list_ex limit_or_offset (clauses ds) then ''LIMIT'' else ''NO LIMIT'', None, None))
     (Limit (New ''mysql'' ''users'' ''u'') 25) = Inr (''LIMIT'', None, None) \<and>
   Select (\<lambda>ds. (if list_ex limit_or_offset (clauses ds) then ''LIMIT'' else ''NO LIMIT'', None, None))
     (Limit (New ''mysql'' ''users'' ''u'') 0) = Inr (''NO LIMIT'', None, None) \<and>
   Count (\<lambda>ds. (if list_ex limit_or_offset (clauses ds) then ''LIMIT'' else ''NO LIMIT'', None, None))
     (Limit (New ''mysql'' ''users'' ''u'') 0) = Inr (''NO LIMIT'', None, None)"
proof -
  let ?toSQL = "\<lambda>ds. (if list_ex limit_or_offset (clauses ds) then ''LIMIT'' else ''NO LIMIT'',
      None :: val list option, None :: sqlerror option)"
  let ?ds = "Dataset FromK (As (goqu_T ''users'') ''u'') [ds_WithDialect ''mysql'']"
  have m: "mainSelect (Limit (New ''mysql'' ''users'' ''u'') n) = Inr ?ds" for n
    by (simp add: mainSelect.simps New_def)
  note g = default_limit [THEN conjunct2, THEN conjunct2, THEN conjunct2, THEN conjunct2,
      THEN conjunct2, THEN conjunct2, THEN conjunct2, THEN conjunct2, THEN conjunct1,
      rule_format]
  from g [where qb = "Limit (New ''mysql'' ''users'' ''u'') 25" and toSQL = ?toSQL, OF m]
  have 1: "Select ?toSQL (Limit (New ''mysql'' ''users'' ''u'') 25) = Inr (''LIMIT'', None, None)"
    by (simp add: New_def)
  from g [where qb = "Limit (New ''mysql'' ''users'' ''u'') 0" and toSQL = ?toSQL, OF m]
  have 2: "Select ?toSQL (Limit (New ''mysql'' ''users'' ''u'') 0) = Inr (''NO LIMIT'', None, None)"
    "Count ?toSQL (Limit (New ''mysql'' ''users'' ''u'') 0) = Inr (''NO LIMIT'', None, None)"
    by (simp_all add: New_def)
  show ?thesis
    using m [of 25] 1 2 by (intro conjI)
qed

section \<open>The resolver returns\<close>

lemma handleAny_not_pointer:
  "apply_opts opts [] = Inr al \<Longrightarrow> \<not> is_nil_or_pointer v \<Longrightarrow>
   handleAny v opts = handleAny_typed v al"
  by (cases v) (simp_all add: handleAny.simps)

lemma handleAny_pointer:
  "apply_opts opts [] = Inr al \<Longrightarrow> handleAny (VPtr v) opts = handleAny_typed v al"
  "apply_opts opts [] = Inr al \<Longrightarrow> handleAny (VPtrToAny v) opts = handleAny_typed v al"
  "apply_opts opts [] = Inr al \<Longrightarrow> handleAny (VNilPtr t) opts = Inr (Some NULL)"
  "handleAny VNil opts = Inr (Some NULL)"
  by (simp_all add: handleAny.simps)

lemma handleAny_typed_falls_through:
  "is_nil_or_pointer v \<or> plain v \<Longrightarrow> handleAny_typed v al = Inr (Some (goqu_V v))"
  by (cases v) (simp_all add: handleAny_typed.simps)

lemma BoolOp_returns:
  "\<exists>r. handleAny v [] = Inr r \<Longrightarrow> \<exists>r. BoolOp_expression op fieldName tableAlias v = Inr r"
  by (cases op) (auto simp: BoolOp_expression.simps)

lemma RangeOp_returns:
  "\<exists>r. handleAny s [] = Inr r \<Longrightarrow> \<exists>r. handleAny e [] = Inr r \<Longrightarrow>
   \<exists>r. RangeOp_expression op fieldName tableAlias s e = Inr r"
  by (cases op) (auto simp: RangeOp_expression.simps)

lemma WhereGroup_child_typed:
  "\<exists>r. handleAny_typed c al = Inr r \<Longrightarrow> \<exists>r. WhereGroup_child c = Inr r"
  by (cases c) (simp_all add: WhereGroup_child_def handleAny_typed.simps)

lemma WhereGroup_loop_step:
  "WhereGroup_loop (c # cs) exps =
     (case WhereGroup_child c of
        Inl p \<Rightarrow> Inl p
      | Inr None \<Rightarrow> WhereGroup_loop cs exps
      | Inr (Some e) \<Rightarrow> WhereGroup_loop cs (exps @ [e]))"
  by (simp add: WhereGroup_child_def)

lemma WhereGroup_loop_collects:
  "\<forall>c \<in> set cs. \<exists>r. WhereGroup_child c = Inr r \<Longrightarrow>
   WhereGroup_loop cs exps = Inr (exps @ [e. Inr (Some e) \<leftarrow> map WhereGroup_child cs])"
proof (induction cs arbitrary: exps)
  case Nil
  show ?case by simp
next
  case (Cons c cs)
  then obtain r where r: "WhereGroup_child c = Inr r"
    by auto
  from Cons have rest: "\<And>exps. WhereGroup_loop cs exps =
      Inr (exps @ [e. Inr (Some e) \<leftarrow> map WhereGroup_child cs])"
    by simp
  show ?case
    using r by (cases r) (simp_all add: WhereGroup_loop_step rest del: WhereGroup_loop.simps)
qed

lemma WhereGroup_returns:
  "\<forall>c \<in> set cs. \<exists>r. WhereGroup_child c = Inr r \<Longrightarrow> \<exists>r. WhereGroup_expression op cs = Inr r"
  using WhereGroup_loop_collects [of cs "[]"]
  by (cases op) (auto simp: WhereGroup_expression.simps)

lemma Literal_loop_returns:
  "\<forall>a \<in> set args. \<exists>r. handleAny a [] = Inr r \<Longrightarrow> \<exists>r. Literal_loop args acc = Inr r"
  by (induction args arbitrary: acc) auto

lemma Case_loop_returns:
  "\<forall>wt \<in> set conds. (\<exists>r. handleAny (fst wt) [] = Inr r) \<and> (\<exists>r. handleAny (snd wt) [] = Inr r)
   \<Longrightarrow> \<exists>r. Case_loop conds acc = Inr r"
  by (induction conds arbitrary: acc) auto

lemma Fields_loop_returns:
  "\<forall>f \<in> set fs. \<exists>r. Field_expression f = Inr r \<Longrightarrow> \<exists>r. Fields_loop fs acc = Inr r"
  by (induction fs arbitrary: acc) auto

lemma Wheres_loop_returns:
  "\<forall>w \<in> set ws. \<exists>r. handleAny w [] = Inr r \<Longrightarrow> \<exists>r. Wheres_loop ws acc = Inr r"
  by (induction ws arbitrary: acc) auto

lemma Relations_loop_returns:
  "\<forall>rel \<in> set rels. \<forall>ds. \<exists>r. Relation_join rel ds = Inr r \<Longrightarrow>
   \<exists>r. Relations_loop rels ds = Inr r"
proof (induction rels arbitrary: ds)
  case Nil
  show ?case by simp
next
  case (Cons rel rels)
  from Cons.prems have "\<exists>r. Relation_join rel ds = Inr r"
    by simp
  then obtain ds' where "Relation_join rel ds = Inr ds'"
    by blast
  moreover from Cons.prems have "\<exists>r. Relations_loop rels ds' = Inr r"
    by (intro Cons.IH) simp
  ultimately show ?case by simp
qed

lemma On_loop_step:
  "\<not> nil_condition_pointer on \<Longrightarrow> \<exists>r. handleAny on [] = Inr r \<Longrightarrow>
   \<exists>acc'. On_loop (on # ons) acc = On_loop ons acc'"
proof -
  assume n: "\<not> nil_condition_pointer on" and h: "\<exists>r. handleAny on [] = Inr r"
  show ?thesis
  proof (cases on)
    case (VPtr x)
    with h have "\<exists>r. handleAny_typed x [] = Inr r"
      by (simp add: handleAny.simps)
    then show ?thesis
      using VPtr by (cases x) (auto simp: handleAny_typed.simps)
  next
    case (VNilPtr t)
    with n show ?thesis by (cases t) auto
  qed (use h in \<open>auto simp: handleAny.simps handleAny_typed.simps\<close>)
qed

lemma On_loop_returns:
  "\<forall>on \<in> set ons. \<not> nil_condition_pointer on \<and> (\<exists>r. handleAny on [] = Inr r) \<Longrightarrow>
   \<exists>r. On_loop ons acc = Inr r"
proof (induction ons arbitrary: acc)
  case Nil
  show ?case by simp
next
  case (Cons on ons)
  then obtain acc' where "On_loop (on # ons) acc = On_loop ons acc'"
    using On_loop_step [of on ons acc] by auto
  with Cons show ?case by simp
qed

lemma lift_typed:
  assumes "\<not> is_nil_or_pointer v" and "\<And>al. \<exists>r. handleAny_typed v al = Inr r"
  shows "(\<forall>opts. None \<notin> set opts \<longrightarrow> (\<exists>r. handleAny v opts = Inr r)) \<and>
         (\<forall>al. \<exists>r. handleAny_typed v al = Inr r)"
proof (intro conjI allI impI)
  fix opts :: "handleAnyOption list" assume "None \<notin> set opts"
  then obtain al where "apply_opts opts [] = Inr al"
    using apply_opts_total by blast
  then have "handleAny v opts = handleAny_typed v al"
    using assms(1) by (rule handleAny_not_pointer)
  then show "\<exists>r. handleAny v opts = Inr r"
    using assms(2) by simp
next
  fix al show "\<exists>r. handleAny_typed v al = Inr r"
    by (rule assms(2))
qed

lemma lift_pointer:
  assumes "\<And>al. \<exists>r. handleAny_typed v al = Inr r"
  shows "(\<forall>opts. None \<notin> set opts \<longrightarrow> (\<exists>r. handleAny (VPtr v) opts = Inr r)) \<and>
         (\<forall>opts. None \<notin> set opts \<longrightarrow> (\<exists>r. handleAny (VPtrToAny v) opts = Inr r))"
proof (intro conjI allI impI)
  fix opts :: "handleAnyOption list" assume "None \<notin> set opts"
  then obtain al where a: "apply_opts opts [] = Inr al"
    using apply_opts_total by blast
  show "\<exists>r. handleAny (VPtr v) opts = Inr r"
    using assms by (simp add: handleAny_pointer(1) [OF a])
next
  fix opts :: "handleAnyOption list" assume "None \<notin> set opts"
  then obtain al where a: "apply_opts opts [] = Inr al"
    using apply_opts_total by blast
  show "\<exists>r. handleAny (VPtrToAny v) opts = Inr r"
    using assms by (simp add: handleAny_pointer(2) [OF a])
qed

lemma panic_free_returns:
  "panic_free v \<longrightarrow>
     (\<forall>opts. None \<notin> set opts \<longrightarrow> (\<exists>r. handleAny v opts = Inr r)) \<and>
     (\<forall>al. \<exists>r. handleAny_typed v al = Inr r)"
  "panic_free_Field f \<longrightarrow> (\<exists>r. Field_expression f = Inr r)"
  "panic_free_Table t \<longrightarrow> (\<forall>ds. \<exists>r. Relations_loop (tbl_Relations t) ds = Inr r)"
  "panic_free_Relation rel \<longrightarrow> (\<forall>ds. \<exists>r. Relation_join rel ds = Inr r)"
  "panic_free_SQLBuilder qb \<longrightarrow> (\<exists>r. mainSelect qb = Inr r)"
proof (induction v and f and t and rel and qb)
  case VNil
  show ?case by (simp add: handleAny.simps handleAny_typed.simps)
next
  case (VBool x)
  show ?case by (intro impI lift_typed) (simp_all add: handleAny_typed.simps)
next
  case (VNum x)
  show ?case by (intro impI lift_typed) (simp_all add: handleAny_typed.simps)
next
  case (VStr x)
  show ?case by (intro impI lift_typed) (simp_all add: handleAny_typed.simps)
next
  case (VMap x)
  show ?case by (intro impI lift_typed) (simp_all add: handleAny_typed.simps)
next
  case (VOpaque x)
  show ?case by (intro impI lift_typed) (simp_all add: handleAny_typed.simps)
next
  case (VSlice x)
  show ?case by (intro impI lift_typed) (simp_all add: handleAny_typed.simps)
next
  case (VExpr x)
  show ?case by (intro impI lift_typed) (simp_all add: handleAny_typed.simps)
next
  case (VNilPtr x)
  show ?case
    using apply_opts_total handleAny_pointer(3) [of _ _ x]
    by (fastforce simp: handleAny_typed.simps)
next
  case (VPtr x)
  show ?case
    using VPtr lift_pointer [of x] by (simp add: handleAny_typed.simps)
next
  case (VPtrToAny x)
  show ?case
    using VPtrToAny lift_pointer [of x] by (simp add: handleAny_typed.simps)
next
  case (VSQLBuilder qb)
  show ?case
  proof (intro impI lift_typed)
    fix al assume "panic_free (VSQLBuilder qb)"
    with VSQLBuilder show "\<exists>r. handleAny_typed (VSQLBuilder qb) al = Inr r"
      by (auto simp: handleAny_typed.simps)
  qed simp
next
  case (VField f)
  show ?case
  proof (intro impI lift_typed)
    fix al assume "panic_free (VField f)"
    with VField show "\<exists>r. handleAny_typed (VField f) al = Inr r"
      by (auto simp: handleAny_typed.simps)
  qed simp
next
  case (VBoolOp op fn ta v)
  show ?case
  proof (intro impI lift_typed)
    fix al assume "panic_free (VBoolOp op fn ta v)"
    with VBoolOp have "\<exists>r. handleAny v [] = Inr r"
      by simp
    then show "\<exists>r. handleAny_typed (VBoolOp op fn ta v) al = Inr r"
      by (simp add: handleAny_typed.simps BoolOp_returns)
  qed simp
next
  case (VRangeOp op fn ta s e)
  show ?case
  proof (intro impI lift_typed)
    fix al assume "panic_free (VRangeOp op fn ta s e)"
    with VRangeOp have "\<exists>r. handleAny s [] = Inr r" "\<exists>r. handleAny e [] = Inr r"
      by simp_all
    then show "\<exists>r. handleAny_typed (VRangeOp op fn ta s e) al = Inr r"
      by (simp add: handleAny_typed.simps RangeOp_returns)
  qed simp
next
  case (VWhereGroup op conds)
  show ?case
  proof (intro impI lift_typed)
    fix al assume "panic_free (VWhereGroup op conds)"
    with VWhereGroup have "\<forall>c \<in> set conds. \<exists>r. handleAny_typed c [] = Inr r"
      by (simp add: list_all_iff)
    then have "\<forall>c \<in> set conds. \<exists>r. WhereGroup_child c = Inr r"
      using WhereGroup_child_typed by blast
    then show "\<exists>r. handleAny_typed (VWhereGroup op conds) al = Inr r"
      by (simp add: handleAny_typed.simps WhereGroup_returns)
  qed simp
next
  case (VLiteral v args)
  show ?case
  proof (intro impI lift_typed)
    fix al assume "panic_free (VLiteral v args)"
    with VLiteral have "\<forall>a \<in> set args. \<exists>r. handleAny a [] = Inr r"
      by (simp add: list_all_iff)
    then obtain r where "Literal_loop args [] = Inr r"
      using Literal_loop_returns by blast
    then show "\<exists>r. handleAny_typed (VLiteral v args) al = Inr r"
      by (simp add: handleAny_typed.simps Literal_expression.simps)
  qed simp
next
  case (VCase conds els)
  show ?case
  proof (intro impI lift_typed)
    fix al assume pf: "panic_free (VCase conds els)"
    have "\<forall>wt \<in> set conds. (\<exists>r. handleAny (fst wt) [] = Inr r) \<and>
        (\<exists>r. handleAny (snd wt) [] = Inr r)"
    proof
      fix wt assume wt: "wt \<in> set conds"
      with pf have "panic_free (fst wt)" "panic_free (snd wt)"
        by (auto simp: list_all_iff)
      moreover have "fst wt \<in> Basic_BNFs.fsts wt" "snd wt \<in> Basic_BNFs.snds wt"
        by (cases wt, simp)+
      ultimately show "(\<exists>r. handleAny (fst wt) [] = Inr r) \<and>
          (\<exists>r. handleAny (snd wt) [] = Inr r)"
        using VCase(1) [OF wt] VCase(2) [OF wt] by simp
    qed
    then obtain ws where ws: "Case_loop conds [] = Inr ws"
      using Case_loop_returns by blast
    from pf VCase(3) have "\<exists>r. handleAny els [] = Inr r"
      by simp
    with ws show "\<exists>r. handleAny_typed (VCase conds els) al = Inr r"
      by (auto simp: handleAny_typed.simps Case_expression.simps)
  qed simp
next
  case (VCoalesce fs d)
  show ?case
  proof (intro impI lift_typed)
    fix al assume pf: "panic_free (VCoalesce fs d)"
    with VCoalesce(1) have "\<forall>f \<in> set fs. \<exists>r. Field_expression f = Inr r"
      by (simp add: list_all_iff)
    then obtain r where r: "Fields_loop fs [] = Inr r"
      using Fields_loop_returns by blast
    from pf VCoalesce(2) have "\<exists>r. handleAny d [] = Inr r"
      by simp
    with r show "\<exists>r. handleAny_typed (VCoalesce fs d) al = Inr r"
      by (auto simp: handleAny_typed.simps Coalesce_expression.simps)
  qed simp
next
  case (Field n ta fa e)
  show ?case
  proof
    assume pf: "panic_free_Field (Field n ta fa e)"
    show "\<exists>r. Field_expression (Field n ta fa e) = Inr r"
    proof (cases "e = VNil")
      case True
      then show ?thesis
        by (simp add: Field_expression.simps aliasedExpression.simps)
    next
      case False
      with pf have "n \<noteq> [] \<or> fa \<noteq> []" and "panic_free e"
        by simp_all
      then show ?thesis
        using Field False
        by (auto simp: Field_expression.simps aliased_def withAlias_def)
    qed
  qed
next
  case (Table n a rels)
  then show ?case
    by (auto simp: list_all_iff intro!: Relations_loop_returns)
next
  case (Relation jt ons t)
  show ?case
  proof (intro impI allI)
    fix ds assume pf: "panic_free_Relation (Relation jt ons t)"
    with Relation(1) have "\<forall>on \<in> set ons. \<not> nil_condition_pointer on \<and>
        (\<exists>r. handleAny on [] = Inr r)"
      by (simp add: list_all_iff)
    then obtain onConds where "On_loop ons [] = Inr onConds"
      using On_loop_returns by blast
    moreover from pf Relation(2) have "\<forall>ds. \<exists>r. Relations_loop (tbl_Relations t) ds = Inr r"
      by simp
    ultimately show "\<exists>r. Relation_join (Relation jt ons t) ds = Inr r"
      by (simp add: Relation_join.simps Let_def)
  qed
next
  case (SQLBuilder d fs t ws ss gs l off)
  show ?case
  proof
    assume pf: "panic_free_SQLBuilder (SQLBuilder d fs t ws ss gs l off)"
    from pf SQLBuilder(2) obtain ds1 where 1: "Relations_loop (tbl_Relations t)
        (Dataset FromK (As (goqu_T (tbl_Name t)) (tbl_Alias t)) [ds_WithDialect d]) = Inr ds1"
      by auto
    from pf SQLBuilder(1) have "\<forall>f \<in> set fs. \<exists>r. Field_expression f = Inr r"
      by (simp add: list_all_iff)
    then obtain sel where 2: "Fields_loop fs [] = Inr sel"
      using Fields_loop_returns by blast
    from pf SQLBuilder(3) have "\<forall>w \<in> set ws. \<exists>r. handleAny w [] = Inr r"
      by (simp add: list_all_iff)
    then obtain es where 3: "Wheres_loop ws [] = Inr es"
      using Wheres_loop_returns by blast
    show "\<exists>r. mainSelect (SQLBuilder d fs t ws ss gs l off) = Inr r"
      using 1 2 3 by (simp add: mainSelect.simps Let_def)
  qed
qed

text \<open>
  C4, as the code has it. With no nil option among \<open>opts\<close>: the nil value and a nil
  pointer give the \<open>NULL\<close> literal; a non-nil pointer is dereferenced once, before the type
  tests, and the type tests run on the pointee, which is the same as resolving the pointee
  when the pointee is neither nil nor a pointer; a pointee that is nil or a pointer (and not
  itself a goqu expression) is not resolved again but handed to goqu as one bound value; a
  value that no rule matches is
  one bound value; and \<open>handleAny\<close> returns (an expression or nil) on every input that is
  \<open>panic_free\<close>.
\<close>

theorem handleAny_resolves:
  "None \<notin> set opts \<Longrightarrow>
     handleAny VNil opts = Inr (Some NULL) \<and>
     handleAny (VNilPtr t) opts = Inr (Some NULL) \<and>
     (\<not> is_nil_or_pointer v \<longrightarrow>
        handleAny (VPtr v) opts = handleAny v opts \<and>
        handleAny (VPtrToAny v) opts = handleAny v opts) \<and>
     (is_nil_or_pointer v \<longrightarrow>
        handleAny (VPtr v) opts = Inr (Some (goqu_V v)) \<and>
        handleAny (VPtrToAny v) opts = Inr (Some (goqu_V v))) \<and>
     (plain a \<longrightarrow> handleAny a opts = Inr (Some (goqu_V a))) \<and>
     (panic_free a \<longrightarrow> (\<exists>r. handleAny a opts = Inr r))"
proof -
  assume n: "None \<notin> set opts"
  then obtain al where al: "apply_opts opts [] = Inr al"
    using apply_opts_total by blast
  have 1: "handleAny VNil opts = Inr (Some NULL)"
    by (rule handleAny_pointer(4))
  have 2: "handleAny (VNilPtr t) opts = Inr (Some NULL)"
    using al by (rule handleAny_pointer(3))
  have 3: "handleAny (VPtr v) opts = handleAny v opts \<and>
      handleAny (VPtrToAny v) opts = handleAny v opts" if "\<not> is_nil_or_pointer v"
    using that by (simp add: handleAny_pointer(1,2) [OF al] handleAny_not_pointer [OF al])
  have 4: "handleAny (VPtr v) opts = Inr (Some (goqu_V v)) \<and>
      handleAny (VPtrToAny v) opts = Inr (Some (goqu_V v))" if "is_nil_or_pointer v"
    using that by (simp add: handleAny_pointer(1,2) [OF al] handleAny_typed_falls_through)
  have 5: "handleAny a opts = Inr (Some (goqu_V a))" if "plain a"
  proof -
    from that have "\<not> is_nil_or_pointer a"
      by (cases a) simp_all
    with that show ?thesis
      by (simp add: handleAny_not_pointer [OF al] handleAny_typed_falls_through)
  qed
  have 6: "\<exists>r. handleAny a opts = Inr r" if "panic_free a"
    using that n panic_free_returns(1) [of a] by blast
  show ?thesis
    using 1 2 3 4 5 6 by blast
qed

theorem handleAny_resolves_witness:
  "None \<notin> set [withAlias ''total''] \<and>
   plain (VStr ''active'') \<and>
   handleAny (VStr ''active'') [withAlias ''total''] = Inr (Some (goqu_V (VStr ''active''))) \<and>
   \<not> is_nil_or_pointer (VBoolOp EqOp ''id'' ''u'' (VNum 1)) \<and>
   handleAny (VPtr (VBoolOp EqOp ''id'' ''u'' (VNum 1))) [withAlias ''total''] =
     Inr (Some (BooleanExpression EqOp (goqu_C_Table ''id'' ''u'') (ExprArg (goqu_V (VNum 1)))))"
proof -
  have h: "None \<notin> set [withAlias ''total'']"
    by (simp add: withAlias_def)
  have p: "plain (VStr ''active'')"
    by simp
  have q: "\<not> is_nil_or_pointer (VBoolOp EqOp ''id'' ''u'' (VNum 1))"
    by simp
  note handleAny_resolves [where a = "VStr ''active''", OF h,
      THEN conjunct2, THEN conjunct2, THEN conjunct2, THEN conjunct2, THEN conjunct1]
  with p have 1: "handleAny (VStr ''active'') [withAlias ''total''] =
      Inr (Some (goqu_V (VStr ''active'')))"
    by (rule rev_mp)
  note handleAny_resolves [where v = "VBoolOp EqOp ''id'' ''u'' (VNum 1)", OF h,
      THEN conjunct2, THEN conjunct2, THEN conjunct1]
  with q have "handleAny (VPtr (VBoolOp EqOp ''id'' ''u'' (VNum 1))) [withAlias ''total''] =
      handleAny (VBoolOp EqOp ''id'' ''u'' (VNum 1)) [withAlias ''total'']"
    by (simp only: simp_thms)
  then have 2: "handleAny (VPtr (VBoolOp EqOp ''id'' ''u'' (VNum 1))) [withAlias ''total''] =
     Inr (Some (BooleanExpression EqOp (goqu_C_Table ''id'' ''u'') (ExprArg (goqu_V (VNum 1)))))"
    by (simp add: handleAny.simps handleAny_typed.simps BoolOp_expression.simps withAlias_def
        identifierExpression_def)
  show ?thesis
    using h p 1 q 2 by (intro conjI)
qed

text \<open>
  As the specification words it, the property fails: resolution does not restart on the pointee. A pointer to
  a nil interface and a pointer to a nil pointer give a bound value, where the nil value and
  the nil pointer themselves give the \<open>NULL\<close> literal.
\<close>

theorem pointer_restart_counterexample:
  "handleAny (VPtrToAny VNil) [] = Inr (Some (goqu_V VNil)) \<and>
   handleAny VNil [] = Inr (Some (goqu_L ''NULL'' [])) \<and>
   handleAny (VPtrToAny VNil) [] \<noteq> handleAny VNil [] \<and>
   handleAny (VPtr (VNilPtr PtrOther)) [] = Inr (Some (goqu_V (VNilPtr PtrOther))) \<and>
   handleAny (VNilPtr PtrOther) [] = Inr (Some (goqu_L ''NULL'' [])) \<and>
   handleAny (VPtr (VNilPtr PtrOther)) [] \<noteq> handleAny (VNilPtr PtrOther) []"
  by (simp add: handleAny.simps handleAny_typed.simps NULL_def)

text \<open>
  Outside \<open>panic_free\<close> the code does raise: \<open>Field.expression\<close> leaves its option nil when
  the field has an inner expression but neither an alias nor a name, and \<open>handleAny\<close> calls
  every option it is given. Such a field among the fields of a builder makes \<open>Select\<close> raise.
\<close>

lemma nil_option_panics:
  "handleAny (VField (Field [] [] [] (VLiteral ''COUNT(*)'' []))) [] = Inl NilFunctionCall \<and>
   Select toSQL (SQLBuilder ''mysql'' [Field [] [] [] (VLiteral ''COUNT(*)'' [])]
       (Table ''users'' ''u'' []) [] [] [] 10 0) = Inl NilFunctionCall"
  by (simp add: handleAny.simps handleAny_typed.simps Field_expression.simps aliased_def
      Select_def mainSelect.simps)

section \<open>Compiling a \<open>WhereGroup\<close>\<close>

lemma Wheres_loop_nothing:
  "\<forall>w \<in> set ws. handleAny w [] = Inr None \<Longrightarrow>
   Wheres_loop ws expressions = Inr (expressions @ replicate (length ws) None)"
proof (induction ws arbitrary: expressions)
  case Nil
  show ?case by simp
next
  case (Cons w ws)
  then show ?case by (simp add: replicate_app_Cons_same)
qed

lemma eq_active:
  "BoolOp_expression EqOp ''status'' ''u'' (VStr ''active'') =
     Inr (Some (BooleanExpression EqOp (goqu_C_Table ''status'' ''u'')
                  (ExprArg (goqu_V (VStr ''active'')))))"
  by (simp add: BoolOp_expression.simps handleAny.simps handleAny_typed.simps
      identifierExpression_def)

lemma empty_group_nothing:
  "handleAny (VWhereGroup op []) [] = Inr None"
  "handleAny (VWhereGroup op [VStr s]) [] = Inr None"
  by (simp_all add: handleAny.simps handleAny_typed.simps WhereGroup_expression.simps)

text \<open>
  C6. A child that is not a \<open>BoolOp\<close>, \<open>RangeOp\<close> or \<open>WhereGroup\<close> value gives no expression.
  When no child raises, the group compiles to nil if no child gives an expression, and
  otherwise to \<open>goqu.Or\<close> (for \<open>OrType\<close>) or \<open>goqu.And\<close> (for every other operator) of the
  expressions that the children give, in order, the children without one being skipped.
\<close>

theorem group_compile:
  "(kind_of c \<notin> {KBoolOp, KRangeOp, KWhereGroup} \<longrightarrow> WhereGroup_child c = Inr None) \<and>
   ((\<forall>c \<in> set conditions. \<exists>r. WhereGroup_child c = Inr r) \<longrightarrow>
      WhereGroup_expression op conditions =
        Inr (let exps = [e. Inr (Some e) \<leftarrow> map WhereGroup_child conditions]
             in if exps = [] then None
                else Some (if op = OrType then goqu_Or exps else goqu_And exps)))"
proof (intro conjI impI)
  assume "kind_of c \<notin> {KBoolOp, KRangeOp, KWhereGroup}"
  then show "WhereGroup_child c = Inr None"
    by (cases c) (simp_all add: WhereGroup_child_def)
next
  assume "\<forall>c \<in> set conditions. \<exists>r. WhereGroup_child c = Inr r"
  then have "WhereGroup_loop conditions [] =
      Inr ([] @ [e. Inr (Some e) \<leftarrow> map WhereGroup_child conditions])"
    by (rule WhereGroup_loop_collects)
  then show "WhereGroup_expression op conditions =
        Inr (let exps = [e. Inr (Some e) \<leftarrow> map WhereGroup_child conditions]
             in if exps = [] then None
                else Some (if op = OrType then goqu_Or exps else goqu_And exps))"
    by (cases op) (simp_all add: WhereGroup_expression.simps Let_def)
qed

theorem group_compile_witness:
  "WhereGroup_child (VStr ''x'') = Inr None \<and>
   WhereGroup_child (VBoolOp EqOp ''status'' ''u'' (VStr ''active'')) =
     Inr (Some (BooleanExpression EqOp (goqu_C_Table ''status'' ''u'')
                  (ExprArg (goqu_V (VStr ''active''))))) \<and>
   WhereGroup_child (VWhereGroup AndType []) = Inr None \<and>
   WhereGroup_expression OrType
     [VStr ''x'', VBoolOp EqOp ''status'' ''u'' (VStr ''active''), VWhereGroup AndType []] =
     Inr (Some (goqu_Or [BooleanExpression EqOp (goqu_C_Table ''status'' ''u'')
                  (ExprArg (goqu_V (VStr ''active'')))])) \<and>
   WhereGroup_expression AndType [VStr ''x'', VWhereGroup AndType []] = Inr None"
proof -
  have 1: "WhereGroup_child (VStr ''x'') = Inr None"
    by (simp add: WhereGroup_child_def)
  have 2: "WhereGroup_child (VBoolOp EqOp ''status'' ''u'' (VStr ''active'')) =
     Inr (Some (BooleanExpression EqOp (goqu_C_Table ''status'' ''u'')
                  (ExprArg (goqu_V (VStr ''active'')))))"
    by (simp add: WhereGroup_child_def eq_active)
  have 3: "WhereGroup_child (VWhereGroup AndType []) = Inr None"
    by (simp add: WhereGroup_child_def WhereGroup_expression.simps)
  note g = group_compile [THEN conjunct2, THEN mp]
  have 4: "WhereGroup_expression OrType
     [VStr ''x'', VBoolOp EqOp ''status'' ''u'' (VStr ''active''), VWhereGroup AndType []] =
     Inr (Some (goqu_Or [BooleanExpression EqOp (goqu_C_Table ''status'' ''u'')
                  (ExprArg (goqu_V (VStr ''active'')))]))"
    by (subst g) (simp_all add: 1 2 3)
  have 5: "WhereGroup_expression AndType [VStr ''x'', VWhereGroup AndType []] = Inr None"
    by (subst g) (simp_all add: 1 3)
  show ?thesis
    using 1 2 3 4 5 by (intro conjI)
qed

text \<open>
  C8. A group around one child that gives an expression compiles to the \<open>goqu.And\<close> or
  \<open>goqu.Or\<close> list that holds this one expression. goqu writes a list of one expression as
  that expression, without parentheses; its generator is not part of the repository, so this
  is the hypothesis on \<open>render\<close>. Under every rendering that reads a list of one expression
  as its member, the group and the child on its own compile to the same result; and the two
  expressions are equal once the lists of one member are taken off (\<open>unwrap\<close>).
\<close>

theorem single_child_group:
  "WhereGroup_child c = Inr (Some e) \<Longrightarrow>
   (\<forall>x. render (goqu_And [x]) = render x \<and> render (goqu_Or [x]) = render x) \<Longrightarrow>
   WhereGroup_expression op [c] = Inr (Some (if op = OrType then goqu_Or [e] else goqu_And [e])) \<and>
   map_sum id (map_option render) (WhereGroup_expression op [c]) =
     map_sum id (map_option render) (WhereGroup_child c) \<and>
   map_sum id (map_option unwrap) (WhereGroup_expression op [c]) =
     map_sum id (map_option unwrap) (WhereGroup_child c)"
proof -
  assume c: "WhereGroup_child c = Inr (Some e)"
    and r: "\<forall>x. render (goqu_And [x]) = render x \<and> render (goqu_Or [x]) = render x"
  from c have "\<forall>x \<in> set [c]. \<exists>r. WhereGroup_child x = Inr r"
    by simp
  then have "WhereGroup_loop [c] [] = Inr ([] @ [e. Inr (Some e) \<leftarrow> map WhereGroup_child [c]])"
    by (rule WhereGroup_loop_collects)
  with c have "WhereGroup_loop [c] [] = Inr [e]"
    by simp
  then have 1: "WhereGroup_expression op [c] =
      Inr (Some (if op = OrType then goqu_Or [e] else goqu_And [e]))"
    by (cases op) (simp_all add: WhereGroup_expression.simps)
  have 2: "map_sum id (map_option render) (WhereGroup_expression op [c]) =
     map_sum id (map_option render) (WhereGroup_child c)"
    using r by (simp add: 1 c)
  have 3: "map_sum id (map_option unwrap) (WhereGroup_expression op [c]) =
     map_sum id (map_option unwrap) (WhereGroup_child c)"
    by (simp add: 1 c)
  show ?thesis
    using 1 2 3 by (intro conjI)
qed

theorem single_child_group_witness:
  "WhereGroup_child (VBoolOp EqOp ''status'' ''u'' (VStr ''active'')) =
     Inr (Some (BooleanExpression EqOp (goqu_C_Table ''status'' ''u'')
                  (ExprArg (goqu_V (VStr ''active''))))) \<and>
   (\<forall>x. unwrap (goqu_And [x]) = unwrap x \<and> unwrap (goqu_Or [x]) = unwrap x) \<and>
   WhereGroup_expression OrType [VBoolOp EqOp ''status'' ''u'' (VStr ''active'')] =
     Inr (Some (goqu_Or [BooleanExpression EqOp (goqu_C_Table ''status'' ''u'')
                  (ExprArg (goqu_V (VStr ''active'')))])) \<and>
   map_sum id (map_option unwrap)
     (WhereGroup_expression OrType [VBoolOp EqOp ''status'' ''u'' (VStr ''active'')]) =
     Inr (Some (BooleanExpression EqOp (goqu_C_Table ''status'' ''u'')
                  (ExprArg (goqu_V (VStr ''active'')))))"
proof -
  have c: "WhereGroup_child (VBoolOp EqOp ''status'' ''u'' (VStr ''active'')) =
     Inr (Some (BooleanExpression EqOp (goqu_C_Table ''status'' ''u'')
                  (ExprArg (goqu_V (VStr ''active'')))))"
    by (simp add: WhereGroup_child_def eq_active)
  have r: "\<forall>x. unwrap (goqu_And [x]) = unwrap x \<and> unwrap (goqu_Or [x]) = unwrap x"
    by simp
  note t = single_child_group [where render = unwrap and op = OrType, OF c r]
  from t [THEN conjunct1] have 1:
    "WhereGroup_expression OrType [VBoolOp EqOp ''status'' ''u'' (VStr ''active'')] =
     Inr (Some (goqu_Or [BooleanExpression EqOp (goqu_C_Table ''status'' ''u'')
                  (ExprArg (goqu_V (VStr ''active'')))]))"
    by simp
  from t [THEN conjunct2, THEN conjunct1] have 2: "map_sum id (map_option unwrap)
     (WhereGroup_expression OrType [VBoolOp EqOp ''status'' ''u'' (VStr ''active'')]) =
     Inr (Some (BooleanExpression EqOp (goqu_C_Table ''status'' ''u'')
                  (ExprArg (goqu_V (VStr ''active'')))))"
    by (simp add: c)
  show ?thesis
    using c r 1 2 by (intro conjI)
qed

section \<open>What the mutation guard tests\<close>

text \<open>
  C10. The guard of \<open>Edit\<close> and \<open>Delete\<close> looks at the length of \<open>Wheres\<close> only. A builder
  whose \<open>Wheres\<close> is not empty but holds only entries that resolve to no expression passes
  it: \<open>Edit\<close> and \<open>Delete\<close> go on to render the dataset, with a \<open>Where\<close> clause that holds
  nil for each entry. A group without children is such an entry, and so is a group whose
  only child is a value that is not a condition.
\<close>

theorem guard_tests_length_only:
  "Wheres qb \<noteq> [] \<and> (\<forall>w \<in> set (Wheres qb). handleAny w [] = Inr None) \<Longrightarrow>
   Edit toSQL qb entry =
     Inr (toSQL (Dataset UpdateK (goqu_T (tbl_Name (qb_Table qb)))
       [ds_WithDialect (Dialect qb), ds_Where (replicate (length (Wheres qb)) None),
        ds_Set entry, ds_Prepared True])) \<and>
   Delete toSQL qb =
     Inr (toSQL (Dataset DeleteK (goqu_T (tbl_Name (qb_Table qb)))
       [ds_WithDialect (Dialect qb), ds_Where (replicate (length (Wheres qb)) None),
        ds_Prepared True]))"
proof -
  assume a: "Wheres qb \<noteq> [] \<and> (\<forall>w \<in> set (Wheres qb). handleAny w [] = Inr None)"
  then have "Wheres_loop (Wheres qb) [] = Inr ([] @ replicate (length (Wheres qb)) None)"
    by (intro Wheres_loop_nothing) simp
  with a show ?thesis
    by (simp add: Edit_def Delete_def)
qed

theorem guard_tests_length_only_witness:
  "Wheres (Where (New ''mysql'' ''users'' ''u'') [VWhereGroup AndType [], VWhereGroup OrType [VStr ''x'']])
     \<noteq> [] \<and>
   handleAny (VWhereGroup AndType []) [] = Inr None \<and>
   handleAny (VWhereGroup OrType [VStr ''x'']) [] = Inr None \<and>
   Delete (\<lambda>ds. (''DELETE'', Some [], None))
     (Where (New ''mysql'' ''users'' ''u'') [VWhereGroup AndType [], VWhereGroup OrType [VStr ''x'']])
     = Inr (''DELETE'', Some [], None) \<and>
   Edit (\<lambda>ds. (''UPDATE'', Some [], None))
     (Where (New ''mysql'' ''users'' ''u'') [VWhereGroup AndType [], VWhereGroup OrType [VStr ''x'']])
     [(''name'', VStr ''n'')]
     = Inr (''UPDATE'', Some [], None)"
proof -
  let ?qb = "Where (New ''mysql'' ''users'' ''u'')
      [VWhereGroup AndType [], VWhereGroup OrType [VStr ''x'']]"
  have w: "Wheres ?qb = [VWhereGroup AndType [], VWhereGroup OrType [VStr ''x'']]"
    by (simp add: New_def)
  have h: "Wheres ?qb \<noteq> [] \<and> (\<forall>w \<in> set (Wheres ?qb). handleAny w [] = Inr None)"
    by (simp add: w empty_group_nothing)
  show ?thesis
    using w guard_tests_length_only [OF h, of "\<lambda>ds. (''DELETE'', Some [], None)"]
      guard_tests_length_only [OF h, of "\<lambda>ds. (''UPDATE'', Some [], None)"
        "[(''name'', VStr ''n'')]"]
    by (simp add: empty_group_nothing)
qed

end
